theory Spec2Isabelle
  imports Complex_Main "HOL-Library.Word"
begin

section \<open>The spectrogram visualizer (src/spectrogram.js)\<close>

text \<open>
  A shallow embedding of the analysis and buffering pipeline of the class
  \<open>SpectrogramVisualizer\<close>: the Mel filter bank (\<open>createMelFilterBank\<close>), the frame
  reducer (\<open>applyMelFiltering\<close>), the history buffer (\<open>updateSpectrogram\<close>), the
  texture backing store (\<open>createSpectrogramPlane\<close>, \<open>recreateTexture\<close>,
  \<open>updateTexture\<close>) and the colour function of the fragment shader
  (\<open>spectrogramColor\<close>).

  Numbers. A JavaScript number is an IEEE double and a GLSL \<open>float\<close> a binary float; here
  both are mathematical reals (type \<open>real\<close>), so every arithmetic operation is exact and
  rounding is not modelled. The one non-real value that the pipeline can produce, \<open>NaN\<close>
  (a product with \<open>undefined\<close>), is a constructor of \<open>jsnum\<close>. A \<open>Uint8Array\<close> is a list
  of 8-bit words; a store into it converts with \<open>ToUint8\<close> (the integer modulo 256), an
  out-of-range store is ignored and an out-of-range load is \<open>undefined\<close>.
\<close>

subsection \<open>State\<close>

type_synonym u8 = "8 word"

datatype error = TypeError | RangeError

datatype jsnum = Num real | NaN

record render_config =
  fftSize :: nat
  melBands :: nat
  spectrogramWidth :: nat

text \<open>A \<open>THREE.DataTexture\<close>: its \<open>image.data\<close>, \<open>image.width\<close>, \<open>image.height\<close> and
  whether \<open>needsUpdate\<close> has been set.\<close>

record texture =
  image_data :: "u8 list"
  image_width :: nat
  image_height :: nat
  needsUpdate :: bool

text \<open>The fields of the visualizer that the pipeline reads and writes. \<open>analyser\<close> says
  whether \<open>this.analyser\<close> is set; \<open>None\<close> is JavaScript's \<open>null\<close>.\<close>

record visualizer =
  config :: render_config
  analyser :: bool
  dataArray :: "u8 list"
  isRecording :: bool
  spectrogramData :: "jsnum list list"
  spectrogramTexture :: "texture option"
  melFilterBank :: "real list list option"

subsection \<open>Typed arrays\<close>

definition load8 :: "u8 list \<Rightarrow> nat \<Rightarrow> u8 option" where
  "load8 d i = (if i < length d then Some (d ! i) else None)"

text \<open>\<open>d[i] = v\<close> where \<open>v\<close> was loaded from a \<open>Uint8Array\<close>: \<open>undefined\<close> is stored as 0,
  and a store outside the array does nothing (as \<open>list_update\<close>).\<close>

definition store8 :: "u8 list \<Rightarrow> nat \<Rightarrow> u8 option \<Rightarrow> u8 list" where
  "store8 d i v = d[i := (case v of None \<Rightarrow> 0 | Some b \<Rightarrow> b)]"

text \<open>\<open>ToUint8\<close> of an integral number.\<close>

definition toUint8 :: "int \<Rightarrow> u8" where
  "toUint8 n = word_of_int n"

subsection \<open>Mel filter bank\<close>

definition hzToMel :: "real \<Rightarrow> real" where
  "hzToMel hz = 2595 * log 10 (1 + hz / 700)"

definition melToHz :: "real \<Rightarrow> real" where
  "melToHz mel = 700 * (10 powr (mel / 2595) - 1)"

definition melPoints :: "real \<Rightarrow> real \<Rightarrow> nat \<Rightarrow> real list" where
  "melPoints sampleRate minHz nMels =
     (let melMin = hzToMel minHz; melMax = hzToMel (sampleRate / 2)
      in map (\<lambda>i. melMin + (melMax - melMin) * real i / real (nMels + 1)) [0..<nMels + 2])"

definition hzPoints :: "real \<Rightarrow> real \<Rightarrow> nat \<Rightarrow> real list" where
  "hzPoints sampleRate minHz nMels = map melToHz (melPoints sampleRate minHz nMels)"

text \<open>The body of the loop over \<open>k\<close>: the weight of the bin of frequency \<open>freq\<close>. The
  array was filled with 0, which stays where neither branch assigns. Where a branch is
  taken with \<open>center = left\<close> or \<open>right = center\<close> JavaScript divides 0 by 0 and stores
  \<open>NaN\<close>, which a real quotient cannot show; with the constants of the code the edges are
  strictly increasing (\<open>hzPoints_less\<close> below), so this does not happen.\<close>

definition triangle :: "real \<Rightarrow> real \<Rightarrow> real \<Rightarrow> real \<Rightarrow> real" where
  "triangle left center right freq =
     (if freq \<ge> left \<and> freq \<le> center then (freq - left) / (center - left)
      else if freq > center \<and> freq \<le> right then (right - freq) / (right - center)
      else 0)"

definition binFreq :: "real \<Rightarrow> nat \<Rightarrow> nat \<Rightarrow> real" where
  "binFreq sampleRate nfft k = real k * sampleRate / (2 * real nfft)"

definition melFilter :: "real \<Rightarrow> nat \<Rightarrow> real list \<Rightarrow> nat \<Rightarrow> real list" where
  "melFilter sampleRate nfft hz m =
     (let left = hz ! (m - 1); center = hz ! m; right = hz ! (m + 1)
      in map (\<lambda>k. triangle left center right (binFreq sampleRate nfft k)) [0..<nfft])"

definition melFilters :: "real \<Rightarrow> real \<Rightarrow> nat \<Rightarrow> nat \<Rightarrow> real list list" where
  "melFilters sampleRate minHz nfft nMels =
     map (melFilter sampleRate nfft (hzPoints sampleRate minHz nMels)) [1..<nMels + 1]"

text \<open>The body of \<open>createMelFilterBank\<close>, with its two literals, the sample rate and the
  lowest frequency, named; the method itself takes neither and fixes them to 44100 and
  500. \<open>nfft\<close> is \<open>fftSize / 2\<close>; \<open>new Array(nfft)\<close> throws a \<open>RangeError\<close> when that is
  not an integer, which the first band reaches.\<close>

definition createMelFilterBankWith :: "real \<Rightarrow> real \<Rightarrow> visualizer \<Rightarrow> error + visualizer" where
  "createMelFilterBankWith sampleRate minHz st =
     (let nMels = melBands (config st)
      in if 1 \<le> nMels \<and> odd (fftSize (config st)) then Inl RangeError
         else Inr (st\<lparr>melFilterBank :=
                Some (melFilters sampleRate minHz (fftSize (config st) div 2) nMels)\<rparr>))"

definition createMelFilterBank :: "visualizer \<Rightarrow> error + visualizer" where
  "createMelFilterBank st = createMelFilterBankWith 44100 500 st"

subsection \<open>Frame reducer\<close>

fun jsAdd :: "jsnum \<Rightarrow> jsnum \<Rightarrow> jsnum" where
  "jsAdd (Num a) (Num b) = Num (a + b)"
| "jsAdd _ _ = NaN"

fun jsMul :: "jsnum \<Rightarrow> jsnum \<Rightarrow> jsnum" where
  "jsMul (Num a) (Num b) = Num (a * b)"
| "jsMul _ _ = NaN"

fun jsDiv255 :: "jsnum \<Rightarrow> jsnum" where
  "jsDiv255 (Num a) = Num (a / 255)"
| "jsDiv255 NaN = NaN"

text \<open>\<open>filter[k]\<close> as a factor: \<open>undefined\<close> beyond the end of the filter, which
  multiplies to \<open>NaN\<close>.\<close>

definition weightAt :: "real list \<Rightarrow> nat \<Rightarrow> jsnum" where
  "weightAt w k = (if k < length w then Num (w ! k) else NaN)"

definition bandSum :: "u8 list \<Rightarrow> real list \<Rightarrow> jsnum" where
  "bandSum fftData w =
     fold (\<lambda>k sum. jsAdd sum (jsMul (Num (real (unat (fftData ! k)))) (weightAt w k)))
       [0..<length fftData] (Num 0)"

text \<open>One iteration of the loop over \<open>m\<close>. \<open>this.melFilterBank[m][k]\<close> is evaluated only
  inside the loop over \<open>k\<close>; it throws a \<open>TypeError\<close> when the bank is \<open>null\<close> or has no
  filter \<open>m\<close>.\<close>

definition melBand :: "visualizer \<Rightarrow> u8 list \<Rightarrow> nat \<Rightarrow> error + jsnum" where
  "melBand st fftData m =
     (if fftData = [] then Inr (Num 0)
      else case melFilterBank st of
        None \<Rightarrow> Inl TypeError
      | Some bank \<Rightarrow>
          if m < length bank then Inr (jsDiv255 (bandSum fftData (bank ! m)))
          else Inl TypeError)"

fun collect :: "(error + 'a) list \<Rightarrow> error + 'a list" where
  "collect [] = Inr []"
| "collect (Inl e # _) = Inl e"
| "collect (Inr x # rs) = (case collect rs of Inl e \<Rightarrow> Inl e | Inr xs \<Rightarrow> Inr (x # xs))"

definition applyMelFiltering :: "visualizer \<Rightarrow> u8 list \<Rightarrow> error + jsnum list" where
  "applyMelFiltering st fftData =
     collect (map (melBand st fftData) [0..<melBands (config st)])"

subsection \<open>Texture\<close>

text \<open>The loop of \<open>createSpectrogramPlane\<close>, \<open>for (i = 0; i < length; i += 4)\<close>.\<close>

function fillOpaque :: "nat \<Rightarrow> u8 list \<Rightarrow> u8 list" where
  "fillOpaque i d =
     (if i < length d
      then fillOpaque (i + 4) (d[i := 0, i + 1 := 0, i + 2 := 0, i + 3 := 255])
      else d)"
  by pat_completeness auto
termination
  by (relation "measure (\<lambda>(i, d). length d - i)") auto

declare fillOpaque.simps [simp del]

definition newTexture :: "u8 list \<Rightarrow> render_config \<Rightarrow> texture" where
  "newTexture d cfg =
     \<lparr>image_data = d, image_width = spectrogramWidth cfg, image_height = melBands cfg,
      needsUpdate = False\<rparr>"

text \<open>The part of \<open>createSpectrogramPlane\<close> that makes the texture; the shader material
  and the mesh are not part of this state.\<close>

definition createSpectrogramPlane :: "visualizer \<Rightarrow> visualizer" where
  "createSpectrogramPlane st =
     (let cfg = config st;
          textureData = fillOpaque 0 (replicate (spectrogramWidth cfg * melBands cfg * 4) 0)
      in st\<lparr>spectrogramTexture := Some ((newTexture textureData cfg)\<lparr>needsUpdate := True\<rparr>)\<rparr>)"

text \<open>\<open>this.spectrogramTexture.dispose()\<close> throws a \<open>TypeError\<close> on \<open>null\<close>.\<close>

definition recreateTexture :: "visualizer \<Rightarrow> error + visualizer" where
  "recreateTexture st =
     (case spectrogramTexture st of
        None \<Rightarrow> Inl TypeError
      | Some _ \<Rightarrow>
          (let cfg = config st;
               textureData = replicate (spectrogramWidth cfg * melBands cfg * 4) 0
           in Inr (st\<lparr>spectrogramTexture := Some (newTexture textureData cfg),
                      spectrogramData := []\<rparr>)))"

text \<open>The body of the inner shifting loop: four channel copies from \<open>srcIndex\<close> to
  \<open>dstIndex\<close>, each reading the array as the copies before it left it.\<close>

definition copyPixel :: "nat \<Rightarrow> nat \<Rightarrow> u8 list \<Rightarrow> u8 list" where
  "copyPixel srcIndex dstIndex d =
     (let d1 = store8 d dstIndex (load8 d srcIndex);
          d2 = store8 d1 (dstIndex + 1) (load8 d1 (srcIndex + 1));
          d3 = store8 d2 (dstIndex + 2) (load8 d2 (srcIndex + 2))
      in store8 d3 (dstIndex + 3) (load8 d3 (srcIndex + 3)))"

definition shiftRow :: "nat \<Rightarrow> nat \<Rightarrow> u8 list \<Rightarrow> u8 list" where
  "shiftRow w y d =
     fold (\<lambda>x. copyPixel ((y * w + x + 1) * 4) ((y * w + x) * 4)) [0..<w - 1] d"

definition shiftLeft :: "nat \<Rightarrow> nat \<Rightarrow> u8 list \<Rightarrow> u8 list" where
  "shiftLeft w bands d = fold (shiftRow w) [0..<bands] d"

text \<open>\<open>latestData[y] || 0\<close>: a missing element, \<open>NaN\<close> and 0 all give 0.\<close>

definition orZero :: "jsnum list \<Rightarrow> nat \<Rightarrow> real" where
  "orZero latestData y =
     (if y < length latestData
      then (case latestData ! y of Num v \<Rightarrow> v | NaN \<Rightarrow> 0)
      else 0)"

text \<open>The byte stored for band \<open>y\<close>: \<open>Math.floor(Math.min(1.0, latestData[y] || 0) * 255)\<close>
  converted by the store.\<close>

definition columnByte :: "jsnum list \<Rightarrow> nat \<Rightarrow> u8" where
  "columnByte latestData y =
     (let intensity = min 1 (orZero latestData y);
          v = \<lfloor>intensity * 255\<rfloor>
      in toUint8 v)"

text \<open>One iteration of the loop that writes the new column. With a width of 0 the pixel
  index is negative and the four stores do nothing.\<close>

definition writePixel :: "jsnum list \<Rightarrow> nat \<Rightarrow> nat \<Rightarrow> u8 list \<Rightarrow> u8 list" where
  "writePixel latestData w y d =
     (if w = 0 then d
      else
        (let pixelIndex = (y * w + (w - 1)) * 4; v = columnByte latestData y
         in d[pixelIndex := v, pixelIndex + 1 := v, pixelIndex + 2 := v, pixelIndex + 3 := 255]))"

definition writeColumn :: "jsnum list \<Rightarrow> nat \<Rightarrow> nat \<Rightarrow> u8 list \<Rightarrow> u8 list" where
  "writeColumn latestData w bands d = fold (writePixel latestData w) [0..<bands] d"

text \<open>The two loop nests of \<open>updateTexture\<close> on the texture's bytes.\<close>

definition shiftAndAppend :: "nat \<Rightarrow> nat \<Rightarrow> jsnum list \<Rightarrow> u8 list \<Rightarrow> u8 list" where
  "shiftAndAppend w bands latestData d = writeColumn latestData w bands (shiftLeft w bands d)"

definition updateTexture :: "visualizer \<Rightarrow> visualizer" where
  "updateTexture st =
     (case spectrogramTexture st of
        None \<Rightarrow> st
      | Some tex \<Rightarrow>
          if spectrogramData st = [] then st
          else
            (let cfg = config st;
                 latestData = last (spectrogramData st);
                 textureData =
                   shiftAndAppend (spectrogramWidth cfg) (melBands cfg) latestData (image_data tex)
             in st\<lparr>spectrogramTexture :=
                     Some (tex\<lparr>image_data := textureData, needsUpdate := True\<rparr>)\<rparr>))"

text \<open>The four channels of the image cell in column \<open>x\<close> of row \<open>y\<close>, as
  \<open>updateTexture\<close> addresses them, and the cell that \<open>updateTexture\<close> writes for band
  \<open>y\<close> of a frame.\<close>

definition cell :: "nat \<Rightarrow> u8 list \<Rightarrow> nat \<Rightarrow> nat \<Rightarrow> u8 \<times> u8 \<times> u8 \<times> u8" where
  "cell w d x y = (let i = (y * w + x) * 4 in (d ! i, d ! (i + 1), d ! (i + 2), d ! (i + 3)))"

definition framePixel :: "jsnum list \<Rightarrow> nat \<Rightarrow> u8 \<times> u8 \<times> u8 \<times> u8" where
  "framePixel latestData y =
     (columnByte latestData y, columnByte latestData y, columnByte latestData y, 255)"

subsection \<open>History buffer\<close>

text \<open>\<open>push\<close> followed by the guarded \<open>shift\<close> of \<open>updateSpectrogram\<close>.\<close>

definition pushFrame :: "nat \<Rightarrow> 'a \<Rightarrow> 'a list \<Rightarrow> 'a list" where
  "pushFrame w melData buf =
     (let pushed = buf @ [melData]
      in if length pushed > w then tl pushed else pushed)"

text \<open>\<open>analyser.getByteFrequencyData(array)\<close>, with \<open>bins\<close> the analyser's current
  frequency data: it fills the array as far as both reach.\<close>

definition getByteFrequencyData :: "u8 list \<Rightarrow> u8 list \<Rightarrow> u8 list" where
  "getByteFrequencyData bins array = take (length array) bins @ drop (length bins) array"

definition updateSpectrogram :: "u8 list \<Rightarrow> visualizer \<Rightarrow> error + visualizer" where
  "updateSpectrogram bins st =
     (if \<not> isRecording st \<or> \<not> analyser st then Inr st
      else
        (let st1 = st\<lparr>dataArray := getByteFrequencyData bins (dataArray st)\<rparr>
         in case applyMelFiltering st1 (dataArray st1) of
              Inl e \<Rightarrow> Inl e
            | Inr melData \<Rightarrow>
                Inr (updateTexture
                  (st1\<lparr>spectrogramData :=
                     pushFrame (spectrogramWidth (config st1)) melData (spectrogramData st1)\<rparr>))))"

subsection \<open>Colour function of the fragment shader\<close>

text \<open>GLSL's \<open>vec3\<close> is a triple, its built-in functions \<open>clamp\<close>, \<open>smoothstep\<close> and
  \<open>mix\<close> are as the GLSL specification defines them, and the uniform \<open>time\<close> is a
  parameter.\<close>

type_synonym vec3 = "real \<times> real \<times> real"

definition clamp :: "real \<Rightarrow> real \<Rightarrow> real \<Rightarrow> real" where
  "clamp x minVal maxVal = min (max x minVal) maxVal"

definition smoothstep :: "real \<Rightarrow> real \<Rightarrow> real \<Rightarrow> real" where
  "smoothstep edge0 edge1 x =
     (let t = clamp ((x - edge0) / (edge1 - edge0)) 0 1 in t * t * (3 - 2 * t))"

fun mix :: "vec3 \<Rightarrow> vec3 \<Rightarrow> real \<Rightarrow> vec3" where
  "mix (x1, x2, x3) (y1, y2, y3) a =
     (x1 * (1 - a) + y1 * a, x2 * (1 - a) + y2 * a, x3 * (1 - a) + y3 * a)"

fun palette :: "real \<Rightarrow> vec3 \<Rightarrow> vec3 \<Rightarrow> vec3 \<Rightarrow> vec3 \<Rightarrow> vec3" where
  "palette t (a1, a2, a3) (b1, b2, b3) (c1, c2, c3) (d1, d2, d3) =
     (a1 + b1 * cos (6.28318 * (c1 * t + d1)),
      a2 + b2 * cos (6.28318 * (c2 * t + d2)),
      a3 + b3 * cos (6.28318 * (c3 * t + d3)))"

fun scale :: "vec3 \<Rightarrow> real \<Rightarrow> vec3" where
  "scale (x1, x2, x3) s = (x1 * s, x2 * s, x3 * s)"

definition dark :: vec3 where "dark = (0.28, 0.27, 0.91)"
definition mid :: vec3 where "mid = (0.8, 0.36, 0.57)"
definition bright :: vec3 where "bright = (0.88, 0.43, 0.35)"
definition core :: vec3 where "core = (0.86, 0.47, 0.28)"

definition spectrogramColor :: "real \<Rightarrow> real \<Rightarrow> vec3" where
  "spectrogramColor time intensity =
     (if intensity < 0.01 then (0, 0, 0)
      else
        (let color =
               (if intensity < 0.25 then mix dark mid (smoothstep 0 0.25 intensity)
                else if intensity < 0.6 then mix mid bright (smoothstep 0.25 0.6 intensity)
                else mix bright core (smoothstep 0.6 1 intensity));
             iqColor = palette (intensity + time * 0.1)
               (0.5, 0.5, 0.5) (0.3, 0.3, 0.3) (1, 1, 0.5) (0.8, 0.9, 0.3);
             color2 = mix color iqColor (0.3 * intensity);
             softEdge = smoothstep 0 0.05 intensity
         in scale color2 softEdge))"

text \<open>For the proofs: what \<open>spectrogramColor\<close> does after its three-way branch, as a
  function of the branch's colour, and the sum and difference of vectors.\<close>

definition finish :: "real \<Rightarrow> real \<Rightarrow> vec3 \<Rightarrow> vec3" where
  "finish time intensity color =
     scale (mix color (palette (intensity + time * 0.1)
               (0.5, 0.5, 0.5) (0.3, 0.3, 0.3) (1, 1, 0.5) (0.8, 0.9, 0.3)) (0.3 * intensity))
       (smoothstep 0 0.05 intensity)"

definition vadd :: "vec3 \<Rightarrow> vec3 \<Rightarrow> vec3" where
  "vadd = (\<lambda>(x1, x2, x3) (y1, y2, y3). (x1 + y1, x2 + y2, x3 + y3))"

definition vsub :: "vec3 \<Rightarrow> vec3 \<Rightarrow> vec3" where
  "vsub = (\<lambda>(x1, x2, x3) (y1, y2, y3). (x1 - y1, x2 - y2, x3 - y3))"

subsection \<open>The filter bank as the specification words it\<close>

text \<open>Breakpoint \<open>i\<close> of \<open>bandCount + 2\<close> equally spaced Mel values between the Mel images
  of 500 Hz and of the Nyquist frequency 22050 Hz, converted back to Hz.\<close>

definition specBreakpoint :: "nat \<Rightarrow> nat \<Rightarrow> real" where
  "specBreakpoint bandCount i =
     (let melLow = 2595 * log 10 (1 + 500 / 700);
          melHigh = 2595 * log 10 (1 + 22050 / 700);
          mel = melLow + real i * ((melHigh - melLow) / real (bandCount + 1))
      in 700 * (10 powr (mel / 2595) - 1))"

text \<open>The piecewise-linear ramp: 0 outside \<open>[left, right]\<close>, rising linearly from \<open>left\<close>
  to \<open>center\<close>, falling linearly from \<open>center\<close> to \<open>right\<close>.\<close>

definition specRamp :: "real \<Rightarrow> real \<Rightarrow> real \<Rightarrow> real \<Rightarrow> real" where
  "specRamp left center right f =
     (if f < left \<or> right < f then 0
      else if f \<le> center then (f - left) / (center - left)
      else (right - f) / (right - center))"

text \<open>A sequence that increases and then decreases: a first run followed by a second run,
  either of which may be empty. \<open>unimodal\<close> lets both runs have equal neighbours;
  \<open>strictlyUnimodal\<close> wants the increasing run strict.\<close>

definition unimodal :: "real list \<Rightarrow> bool" where
  "unimodal ws \<longleftrightarrow>
     (\<exists>p \<in> {0..length ws}. sorted_wrt (\<le>) (take p ws) \<and> sorted_wrt (\<ge>) (drop p ws))"

definition strictlyUnimodal :: "real list \<Rightarrow> bool" where
  "strictlyUnimodal ws \<longleftrightarrow>
     (\<exists>p \<in> {0..length ws}. sorted_wrt (<) (take p ws) \<and> sorted_wrt (\<ge>) (drop p ws))"

subsection \<open>Initial state and the properties of images\<close>

text \<open>The fields as the constructor sets them, before \<open>init\<close> runs.\<close>

definition initial :: visualizer where
  "initial =
     \<lparr>config = \<lparr>fftSize = 1024, melBands = 256, spectrogramWidth = 600\<rparr>,
      analyser = False, dataArray = [], isRecording = False, spectrogramData = [],
      spectrogramTexture = None, melFilterBank = None\<rparr>"

text \<open>An image in which every cell has equal red, green and blue and full alpha.\<close>

definition greyOpaque :: "nat \<Rightarrow> nat \<Rightarrow> u8 list \<Rightarrow> bool" where
  "greyOpaque w bands d \<longleftrightarrow>
     (\<forall>y \<in> {0..<bands}. \<forall>x \<in> {0..<w}.
        case cell w d x y of (r, g, b, a) \<Rightarrow> r = g \<and> g = b \<and> a = 255)"

text \<open>The byte of a band value that is clamped to the unit interval and then scaled, as
  the specification words it; \<open>columnByte\<close> is what \<open>updateTexture\<close> computes.\<close>

definition clampedByte :: "real \<Rightarrow> u8" where
  "clampedByte v = toUint8 \<lfloor>max 0 (min 1 v) * 255\<rfloor>"

section \<open>Properties\<close>

subsection \<open>Mel filter bank\<close>

text \<open>The two scale conversions are strictly increasing and inverse to each other, so
  the breakpoints \<open>hzPoints\<close> of the code (sample rate 44100, lowest frequency 500) rise
  strictly from 500 to 22050.\<close>

lemma melToHz_hzToMel: "- 700 < hz \<Longrightarrow> melToHz (hzToMel hz) = hz"
  by (simp add: melToHz_def hzToMel_def)

lemma melToHz_less: "a < b \<Longrightarrow> melToHz a < melToHz b"
  by (simp add: melToHz_def)

lemma hzToMel_less: "- 700 < a \<Longrightarrow> a < b \<Longrightarrow> hzToMel a < hzToMel b"
  by (simp add: hzToMel_def)

lemma length_hzPoints [simp]: "length (hzPoints sr mh n) = n + 2"
  by (simp add: hzPoints_def melPoints_def Let_def)

lemma nth_hzPoints:
  "i < n + 2 \<Longrightarrow> hzPoints sr mh n ! i =
     melToHz (hzToMel mh + (hzToMel (sr / 2) - hzToMel mh) * real i / real (n + 1))"
  by (simp add: hzPoints_def melPoints_def Let_def del: upt_Suc)

lemma hzPoints_less:
  assumes "- 700 < mh" "mh < sr / 2" "i < j" "j < n + 2"
  shows "hzPoints sr mh n ! i < hzPoints sr mh n ! j"
proof -
  have d: "0 < hzToMel (sr / 2) - hzToMel mh" using hzToMel_less [OF assms(1,2)] by simp
  have "(hzToMel (sr / 2) - hzToMel mh) * real i < (hzToMel (sr / 2) - hzToMel mh) * real j"
    using d assms(3) by simp
  then have "(hzToMel (sr / 2) - hzToMel mh) * real i / real (n + 1)
      < (hzToMel (sr / 2) - hzToMel mh) * real j / real (n + 1)"
    by (simp add: divide_strict_right_mono)
  then show ?thesis using assms(3,4) by (simp add: nth_hzPoints melToHz_less)
qed

lemma hzPoints_first: "- 700 < mh \<Longrightarrow> hzPoints sr mh n ! 0 = mh"
  by (simp add: nth_hzPoints melToHz_hzToMel)

lemma hzPoints_last: "- 1400 < sr \<Longrightarrow> hzPoints sr mh n ! (n + 1) = sr / 2"
  using nth_hzPoints [of "n + 1" n sr mh] by (simp add: melToHz_hzToMel)

lemma hzPoints_spec: "i < n + 2 \<Longrightarrow> hzPoints 44100 500 n ! i = specBreakpoint n i"
  by (simp add: nth_hzPoints specBreakpoint_def hzToMel_def melToHz_def Let_def mult.commute)

lemma triangle_spec: "l < c \<Longrightarrow> c < r \<Longrightarrow> triangle l c r f = specRamp l c r f"
  by (auto simp: triangle_def specRamp_def)

lemma triangle_range:
  assumes "l < c" "c < r"
  shows "0 \<le> triangle l c r f" "triangle l c r f \<le> 1"
  using assms by (auto simp: triangle_def)

lemma triangle_rising: "l < c \<Longrightarrow> c < r \<Longrightarrow> f \<le> g \<Longrightarrow> g \<le> c \<Longrightarrow> triangle l c r f \<le> triangle l c r g"
  by (auto simp: triangle_def divide_right_mono)

lemma triangle_falling: "l < c \<Longrightarrow> c < r \<Longrightarrow> c < f \<Longrightarrow> f \<le> g \<Longrightarrow> triangle l c r g \<le> triangle l c r f"
  by (auto simp: triangle_def divide_right_mono)

lemma triangle_rising_strict:
  "l < c \<Longrightarrow> l \<le> f \<Longrightarrow> f < g \<Longrightarrow> g \<le> c \<Longrightarrow> triangle l c r f < triangle l c r g"
  by (auto simp: triangle_def divide_strict_right_mono)

lemma triangle_falling_strict:
  "c < r \<Longrightarrow> c < f \<Longrightarrow> f < g \<Longrightarrow> g \<le> r \<Longrightarrow> triangle l c r g < triangle l c r f"
  by (auto simp: triangle_def divide_strict_right_mono)

lemma binFreq_mono: "0 \<le> sr \<Longrightarrow> i \<le> j \<Longrightarrow> binFreq sr nfft i \<le> binFreq sr nfft j"
  by (simp add: binFreq_def divide_right_mono mult_right_mono)

lemma binFreq_less: "0 < sr \<Longrightarrow> 0 < nfft \<Longrightarrow> i < j \<Longrightarrow> binFreq sr nfft i < binFreq sr nfft j"
  by (simp add: binFreq_def divide_strict_right_mono)

text \<open>Over bins of rising frequency a triangle's weights rise up to the last bin at or
  below the centre and fall from the next bin on.\<close>

lemma unimodal_ramp:
  assumes "l < c" "c < r" "0 \<le> sr"
  shows "unimodal (map (\<lambda>k. triangle l c r (binFreq sr nfft k)) [0..<nfft])"
proof -
  let ?F = "binFreq sr nfft"
  let ?ws = "map (\<lambda>k. triangle l c r (?F k)) [0..<nfft]"
  define p where "p = (LEAST k. nfft \<le> k \<or> c < ?F k)"
  have ex: "nfft \<le> nfft \<or> c < ?F nfft" by simp
  have p_le: "p \<le> nfft" unfolding p_def by (rule Least_le) simp
  have below: "?F k \<le> c" if "k < p" for k
    using not_less_Least [of k "\<lambda>k. nfft \<le> k \<or> c < ?F k"] that
    unfolding p_def by auto
  have p_prop: "nfft \<le> p \<or> c < ?F p"
    unfolding p_def by (rule LeastI [of "\<lambda>k. nfft \<le> k \<or> c < ?F k", OF ex])
  have above: "c < ?F k" if "p \<le> k" "k < nfft" for k
  proof -
    from that p_prop have "c < ?F p" by simp
    also have "?F p \<le> ?F k" using assms(3) that(1) by (rule binFreq_mono)
    finally show ?thesis .
  qed
  have up: "sorted_wrt (\<le>) (take p ?ws)"
    unfolding sorted_wrt_iff_nth_less
  proof (intro allI impI)
    fix i j assume ij: "i < j" and j: "j < length (take p ?ws)"
    then have jp: "j < p" "j < nfft" "i < nfft" "i < p" by simp_all
    have "triangle l c r (?F i) \<le> triangle l c r (?F j)"
      using assms(1,2) binFreq_mono [OF assms(3), of i j] below [OF jp(1)] ij
      by (intro triangle_rising) simp_all
    then show "take p ?ws ! i \<le> take p ?ws ! j" using jp by simp
  qed
  have down: "sorted_wrt (\<ge>) (drop p ?ws)"
    unfolding sorted_wrt_iff_nth_less
  proof (intro allI impI)
    fix i j assume ij: "i < j" and j: "j < length (drop p ?ws)"
    then have b: "p + j < nfft" "p + i < nfft" by simp_all
    have "triangle l c r (?F (p + j)) \<le> triangle l c r (?F (p + i))"
      using assms(1,2) above [of "p + i"] b binFreq_mono [OF assms(3), of "p + i" "p + j"] ij
      by (intro triangle_falling) simp_all
    then show "drop p ?ws ! i \<ge> drop p ?ws ! j" using b by simp
  qed
  from p_le up down show ?thesis unfolding unimodal_def by auto
qed

lemma length_melFilter [simp]: "length (melFilter sr nfft hz m) = nfft"
  by (simp add: melFilter_def Let_def)

lemma nth_melFilter:
  "k < nfft \<Longrightarrow> melFilter sr nfft hz m ! k =
     triangle (hz ! (m - 1)) (hz ! m) (hz ! (m + 1)) (binFreq sr nfft k)"
  by (simp add: melFilter_def Let_def)

lemma length_melFilters [simp]: "length (melFilters sr mh nfft n) = n"
  by (simp add: melFilters_def)

lemma nth_melFilters:
  assumes "1 \<le> m" "m \<le> n"
  shows "melFilters sr mh nfft n ! (m - 1) = melFilter sr nfft (hzPoints sr mh n) m"
proof -
  have "[1..<n + 1] ! (m - 1) = 1 + (m - 1)" using assms by (intro nth_upt) simp
  then show ?thesis using assms by (simp add: melFilters_def del: upt_Suc)
qed

lemma createMelFilterBank_even:
  "even (fftSize (config st)) \<Longrightarrow>
   createMelFilterBankWith sr mh st =
     Inr (st\<lparr>melFilterBank :=
       Some (melFilters sr mh (fftSize (config st) div 2) (melBands (config st)))\<rparr>)"
  by (simp add: createMelFilterBankWith_def Let_def)

text \<open>
  Claim C3, amended. For every band count and every even FFT size,
  \<open>createMelFilterBank\<close> installs a bank of exactly \<open>bandCount\<close> filters; filter \<open>m\<close>
  (\<open>1 \<le> m \<le> bandCount\<close>) has one weight per FFT bin, every weight lies in \<open>[0, 1]\<close> and
  is the value of the piecewise-linear ramp whose edges are the breakpoints \<open>m - 1\<close>, \<open>m\<close>,
  \<open>m + 1\<close> at the bin's frequency; the breakpoints, and so the centres of adjacent
  filters, increase strictly. The weight sequence is unimodal in the weak sense: a run
  that never falls followed by a run that never rises. It is strict only inside the
  triangle: strictly increasing over bins between the left edge and the centre,
  strictly decreasing over bins between the centre and the right edge.
\<close>

theorem melFilterBank_shape:
  assumes "even (fftSize (config st))" "1 \<le> m" "m \<le> melBands (config st)"
    "k < fftSize (config st) div 2"
  shows "\<exists>bank. createMelFilterBank st = Inr (st\<lparr>melFilterBank := Some bank\<rparr>) \<and>
    length bank = melBands (config st) \<and>
    length (bank ! (m - 1)) = fftSize (config st) div 2 \<and>
    0 \<le> bank ! (m - 1) ! k \<and> bank ! (m - 1) ! k \<le> 1 \<and>
    bank ! (m - 1) ! k =
      specRamp (specBreakpoint (melBands (config st)) (m - 1))
        (specBreakpoint (melBands (config st)) m)
        (specBreakpoint (melBands (config st)) (m + 1))
        (real k * 44100 / (2 * real (fftSize (config st) div 2))) \<and>
    specBreakpoint (melBands (config st)) (m - 1) < specBreakpoint (melBands (config st)) m \<and>
    specBreakpoint (melBands (config st)) m < specBreakpoint (melBands (config st)) (m + 1) \<and>
    unimodal (bank ! (m - 1)) \<and>
    (\<forall>i j. i < j \<and> j < fftSize (config st) div 2 \<and>
       specBreakpoint (melBands (config st)) (m - 1)
         \<le> real i * 44100 / (2 * real (fftSize (config st) div 2)) \<and>
       real j * 44100 / (2 * real (fftSize (config st) div 2))
         \<le> specBreakpoint (melBands (config st)) m
       \<longrightarrow> bank ! (m - 1) ! i < bank ! (m - 1) ! j) \<and>
    (\<forall>i j. i < j \<and> j < fftSize (config st) div 2 \<and>
       specBreakpoint (melBands (config st)) m
         < real i * 44100 / (2 * real (fftSize (config st) div 2)) \<and>
       real j * 44100 / (2 * real (fftSize (config st) div 2))
         \<le> specBreakpoint (melBands (config st)) (m + 1)
       \<longrightarrow> bank ! (m - 1) ! j < bank ! (m - 1) ! i)"
proof -
  let ?n = "melBands (config st)" and ?nfft = "fftSize (config st) div 2"
  let ?hz = "hzPoints 44100 500 ?n"
  let ?bank = "melFilters 44100 500 ?nfft ?n"
  let ?l = "specBreakpoint ?n (m - 1)" and ?c = "specBreakpoint ?n m"
    and ?r = "specBreakpoint ?n (m + 1)"
  let ?F = "\<lambda>k. real k * 44100 / (2 * real ?nfft)"
  have F: "binFreq 44100 ?nfft k = ?F k" for k by (simp add: binFreq_def)
  have nfft: "0 < ?nfft" using assms(4) by simp
  have hz: "?hz ! (m - 1) = ?l" "?hz ! m = ?c" "?hz ! (m + 1) = ?r"
    using assms(2,3) by (simp_all add: hzPoints_spec)
  have lc: "?l < ?c" using hzPoints_less [of 500 44100 "m - 1" m ?n] assms(2,3) hz by simp
  have cr: "?c < ?r" using hzPoints_less [of 500 44100 m "m + 1" ?n] assms(2,3) hz by simp
  define ws where "ws = ?bank ! (m - 1)"
  have filt: "ws = map (\<lambda>k. triangle ?l ?c ?r (binFreq 44100 ?nfft k)) [0..<?nfft]"
    unfolding ws_def
    using nth_melFilters [OF assms(2,3), of 44100 500 ?nfft] hz by (simp add: melFilter_def Let_def)
  have w: "ws ! i = triangle ?l ?c ?r (?F i)" if "i < ?nfft" for i
    using that by (simp add: filt F)
  have run: "createMelFilterBank st = Inr (st\<lparr>melFilterBank := Some ?bank\<rparr>)"
    using assms(1) by (simp add: createMelFilterBank_def createMelFilterBank_even)
  have len: "length ws = ?nfft" by (simp add: filt)
  have rng: "0 \<le> ws ! k" "ws ! k \<le> 1"
    using triangle_range [OF lc cr] assms(4) by (simp_all add: w)
  have ramp: "ws ! k = specRamp ?l ?c ?r (?F k)"
    using assms(4) w [of k] triangle_spec [OF lc cr, of "?F k"] by simp
  have uni: "unimodal ws"
    unfolding filt using lc cr by (rule unimodal_ramp) simp
  have rise: "\<forall>i j. i < j \<and> j < ?nfft \<and> ?l \<le> ?F i \<and> ?F j \<le> ?c \<longrightarrow> ws ! i < ws ! j"
  proof (intro allI impI)
    fix i j assume a: "i < j \<and> j < ?nfft \<and> ?l \<le> ?F i \<and> ?F j \<le> ?c"
    then have "?F i < ?F j" using binFreq_less [of 44100 ?nfft i j] nfft by (simp add: F)
    then have "triangle ?l ?c ?r (?F i) < triangle ?l ?c ?r (?F j)"
      using lc a by (intro triangle_rising_strict) simp_all
    then show "ws ! i < ws ! j" using a by (simp add: w)
  qed
  have fall: "\<forall>i j. i < j \<and> j < ?nfft \<and> ?c < ?F i \<and> ?F j \<le> ?r \<longrightarrow> ws ! j < ws ! i"
  proof (intro allI impI)
    fix i j assume a: "i < j \<and> j < ?nfft \<and> ?c < ?F i \<and> ?F j \<le> ?r"
    then have "?F i < ?F j" using binFreq_less [of 44100 ?nfft i j] nfft by (simp add: F)
    then have "triangle ?l ?c ?r (?F j) < triangle ?l ?c ?r (?F i)"
      using cr a by (intro triangle_falling_strict) simp_all
    then show "ws ! j < ws ! i" using a by (simp add: w)
  qed
  have "length ?bank = ?n" by simp
  with run len rng ramp lc cr uni rise fall show ?thesis
    unfolding ws_def by (intro exI [of _ ?bank] conjI)
qed

theorem melFilterBank_shape_witness:
  "\<exists>bank. createMelFilterBank initial = Inr (initial\<lparr>melFilterBank := Some bank\<rparr>) \<and>
     length bank = 256 \<and> length (bank ! 0) = 512 \<and>
     0 \<le> bank ! 0 ! 12 \<and> bank ! 0 ! 12 \<le> 1 \<and> unimodal (bank ! 0)"
proof -
  have h: "even (fftSize (config initial))" "(1::nat) \<le> 1" "1 \<le> melBands (config initial)"
    "12 < fftSize (config initial) div 2"
    by (simp_all add: initial_def)
  from melFilterBank_shape [OF h] obtain bank where
    "createMelFilterBank initial = Inr (initial\<lparr>melFilterBank := Some bank\<rparr>)"
    "length bank = melBands (config initial)"
    "length (bank ! (1 - 1)) = fftSize (config initial) div 2"
    "0 \<le> bank ! (1 - 1) ! 12" "bank ! (1 - 1) ! 12 \<le> 1" "unimodal (bank ! (1 - 1))"
    by blast
  then show ?thesis by (intro exI [of _ bank]) (simp add: initial_def)
qed

text \<open>Numeric bounds on breakpoints. With \<open>r = 1 + hz / 700\<close> for breakpoint \<open>i\<close> of
  \<open>n + 2\<close>, the power \<open>r ^ (n + 1)\<close> is rational, so bounds on \<open>r\<close> are comparisons of
  rational powers.\<close>

lemma hzPoints_power:
  assumes "- 700 < mh" "- 1400 < sr" "i \<le> n + 1"
  shows "(1 + hzPoints sr mh n ! i / 700) ^ (n + 1) =
     (1 + mh / 700) ^ (n + 1 - i) * (1 + sr / 1400) ^ i"
proof -
  let ?A = "1 + mh / 700" and ?B = "1 + sr / 1400"
  have A: "0 < ?A" and B: "0 < ?B" using assms(1,2) by simp_all
  let ?e = "log 10 ?A + (log 10 ?B - log 10 ?A) * real i / real (n + 1)"
  have ex: "(hzToMel mh + (hzToMel (sr / 2) - hzToMel mh) * real i / real (n + 1)) / 2595 = ?e"
    by (simp add: hzToMel_def field_simps)
  have "hzPoints sr mh n ! i = 700 * (10 powr ?e - 1)"
    using assms(3) by (simp only: nth_hzPoints melToHz_def ex)
  then have r: "1 + hzPoints sr mh n ! i / 700 = 10 powr ?e"
    by (simp add: diff_divide_distrib)
  have e: "?e * real (n + 1) = real (n + 1 - i) * log 10 ?A + real i * log 10 ?B"
    using assms(3) by (simp add: field_simps of_nat_diff)
  have "(10 powr ?e) ^ (n + 1) = (10 powr ?e) powr real (n + 1)"
    by (rule powr_realpow [symmetric]) simp
  also have "\<dots> = 10 powr (?e * real (n + 1))" by (rule powr_powr)
  also have "\<dots> = 10 powr (real (n + 1 - i) * log 10 ?A) * 10 powr (real i * log 10 ?B)"
    by (simp only: e powr_add)
  also have "10 powr (real (n + 1 - i) * log 10 ?A) = ?A ^ (n + 1 - i)"
  proof -
    have "10 powr (log 10 ?A * real (n + 1 - i)) = (10 powr log 10 ?A) powr real (n + 1 - i)"
      by (rule powr_powr [symmetric])
    also have "\<dots> = ?A powr real (n + 1 - i)" using A by simp
    also have "\<dots> = ?A ^ (n + 1 - i)" using A by (rule powr_realpow)
    finally show ?thesis by (simp only: mult.commute)
  qed
  also have "10 powr (real i * log 10 ?B) = ?B ^ i"
  proof -
    have "10 powr (log 10 ?B * real i) = (10 powr log 10 ?B) powr real i"
      by (rule powr_powr [symmetric])
    also have "\<dots> = ?B powr real i" using B by simp
    also have "\<dots> = ?B ^ i" using B by (rule powr_realpow)
    finally show ?thesis by (simp only: mult.commute)
  qed
  finally show ?thesis by (simp only: r)
qed

lemma hzPoints_bounds:
  assumes "i \<le> n + 1" "- 700 \<le> lo"
    "(1 + lo / 700) ^ (n + 1) \<le> (12 / 7) ^ (n + 1 - i) * (65 / 2) ^ i"
    "(12 / 7) ^ (n + 1 - i) * (65 / 2) ^ i \<le> (1 + hi / 700) ^ (n + 1)"
    "- 700 \<le> hi"
  shows "lo \<le> hzPoints 44100 500 n ! i" "hzPoints 44100 500 n ! i \<le> hi"
proof -
  let ?r = "1 + hzPoints 44100 500 n ! i / 700"
  have pw: "?r ^ (n + 1) = (12 / 7) ^ (n + 1 - i) * (65 / 2) ^ i"
    using hzPoints_power [of 500 44100 i n] assms(1) by simp
  have "500 \<le> hzPoints 44100 500 n ! i"
  proof (cases "i = 0")
    case True
    then show ?thesis by (simp add: hzPoints_first)
  next
    case False
    then have "hzPoints 44100 500 n ! 0 < hzPoints 44100 500 n ! i"
      using assms(1) by (intro hzPoints_less) simp_all
    then show ?thesis by (simp add: hzPoints_first)
  qed
  then have r0: "0 \<le> ?r" by simp
  have lo0: "0 \<le> 1 + lo / 700" and hi0: "0 \<le> 1 + hi / 700" using assms(2,5) by simp_all
  have "(1 + lo / 700) ^ (n + 1) \<le> ?r ^ (n + 1)" using assms(3) pw by simp
  then have "1 + lo / 700 \<le> ?r" using r0 by (simp only: Suc_eq_plus1 [symmetric] power_le_imp_le_base)
  then show "lo \<le> hzPoints 44100 500 n ! i" by simp
  have "?r ^ (n + 1) \<le> (1 + hi / 700) ^ (n + 1)" using assms(4) pw by simp
  then have "?r \<le> 1 + hi / 700" using hi0 by (simp only: Suc_eq_plus1 [symmetric] power_le_imp_le_base)
  then show "hzPoints 44100 500 n ! i \<le> hi" by simp
qed

lemma hz4_1: "1400 \<le> hzPoints 44100 500 4 ! 1" "hzPoints 44100 500 4 ! 1 \<le> 1500"
  by (rule hzPoints_bounds [where lo = 1400 and hi = 1500]; simp add: power_divide)+

lemma hz4_2: "3100 \<le> hzPoints 44100 500 4 ! 2" "hzPoints 44100 500 4 ! 2 \<le> 3200"
  by (rule hzPoints_bounds [where lo = 3100 and hi = 3200]; simp add: power_divide)+

lemma hz4_3: "6300 \<le> hzPoints 44100 500 4 ! 3" "hzPoints 44100 500 4 ! 3 \<le> 6400"
  by (rule hzPoints_bounds [where lo = 6300 and hi = 6400]; simp add: power_divide)+

lemma hz4_4: "11900 \<le> hzPoints 44100 500 4 ! 4" "hzPoints 44100 500 4 ! 4 \<le> 12000"
  by (rule hzPoints_bounds [where lo = 11900 and hi = 12000]; simp add: power_divide)+

lemma hz4_5: "hzPoints 44100 500 4 ! 5 = 22050"
  using hzPoints_last [of 44100 500 4] by simp

subsection \<open>Frame reducer\<close>

text \<open>With a bank whose filters are at least as long as the frame, no product is \<open>NaN\<close>
  and \<open>applyMelFiltering\<close> returns, for every band, the weighted sum divided by 255.\<close>

lemma bandSum_prefix:
  "n \<le> length fftData \<Longrightarrow> length fftData \<le> length w \<Longrightarrow>
   fold (\<lambda>k sum. jsAdd sum (jsMul (Num (real (unat (fftData ! k)))) (weightAt w k))) [0..<n] (Num 0)
     = Num (\<Sum>k<n. real (unat (fftData ! k)) * w ! k)"
  by (induction n) (simp_all add: weightAt_def)

lemma bandSum_Num:
  "length fftData \<le> length w \<Longrightarrow>
   bandSum fftData w = Num (\<Sum>k<length fftData. real (unat (fftData ! k)) * w ! k)"
  unfolding bandSum_def by (rule bandSum_prefix) simp_all

lemma collect_map_Inr:
  "(\<And>x. x \<in> set xs \<Longrightarrow> f x = Inr (g x)) \<Longrightarrow> collect (map f xs) = Inr (map g xs)"
  by (induction xs) simp_all

lemma applyMelFiltering_Inr:
  assumes "melFilterBank st = Some bank" "melBands (config st) \<le> length bank"
    "\<And>m. m < melBands (config st) \<Longrightarrow> length fftData \<le> length (bank ! m)"
  shows "applyMelFiltering st fftData =
    Inr (map (\<lambda>m. Num ((\<Sum>k<length fftData. real (unat (fftData ! k)) * bank ! m ! k) / 255))
      [0..<melBands (config st)])"
  unfolding applyMelFiltering_def
proof (rule collect_map_Inr)
  fix m assume "m \<in> set [0..<melBands (config st)]"
  then have m: "m < melBands (config st)" by simp
  show "melBand st fftData m =
      Inr (Num ((\<Sum>k<length fftData. real (unat (fftData ! k)) * bank ! m ! k) / 255))"
  proof (cases "fftData = []")
    case True
    then show ?thesis by (simp add: melBand_def)
  next
    case False
    then show ?thesis
      using assms(1,2) m bandSum_Num [OF assms(3) [OF m]] by (simp add: melBand_def)
  qed
qed

lemma sum_three_le:
  fixes f :: "nat \<Rightarrow> real"
  assumes "\<And>k. k < n \<Longrightarrow> 0 \<le> f k" "a < b" "b < c" "c < n"
  shows "f a + f b + f c \<le> (\<Sum>k<n. f k)"
proof -
  have "sum f {a, b, c} \<le> sum f {..<n}"
    using assms by (intro sum_mono2) auto
  moreover have "sum f {a, b, c} = f a + f b + f c" using assms(2,3) by simp
  ultimately show ?thesis by simp
qed

lemma triangle_falling_bound:
  assumes "c < f" "f \<le> r" "q * (r - c) \<le> r - f"
  shows "q \<le> triangle l c r f"
proof -
  have "triangle l c r f = (r - f) / (r - c)" using assms(1,2) by (simp add: triangle_def)
  moreover have "0 < r - c" using assms(1,2) by simp
  ultimately show ?thesis using assms(3) by (simp add: le_divide_eq)
qed

lemma melFilters_nth_nth:
  assumes "1 \<le> m" "m \<le> n" "k < nfft"
  shows "melFilters sr mh nfft n ! (m - 1) ! k =
    triangle (hzPoints sr mh n ! (m - 1)) (hzPoints sr mh n ! m) (hzPoints sr mh n ! (m + 1))
      (binFreq sr nfft k)"
  using nth_melFilters [OF assms(1,2), of sr mh nfft] assms(3) by (simp add: nth_melFilter)

lemma melFilters_nonneg:
  assumes "1 \<le> m" "m \<le> n" "k < nfft"
  shows "0 \<le> melFilters 44100 500 nfft n ! (m - 1) ! k"
proof -
  have "hzPoints 44100 500 n ! (m - 1) < hzPoints 44100 500 n ! m"
    using assms(1,2) by (intro hzPoints_less) simp_all
  moreover have "hzPoints 44100 500 n ! m < hzPoints 44100 500 n ! (m + 1)"
    using assms(1,2) by (intro hzPoints_less) simp_all
  ultimately show ?thesis
    using melFilters_nth_nth [OF assms, of 44100 500] triangle_range(1) by simp
qed

lemma uniform_frame:
  assumes "melFilterBank st = Some (melFilters 44100 500 nfft (melBands (config st)))"
  shows "applyMelFiltering st (replicate nfft 255) =
    Inr (map (\<lambda>m. Num (\<Sum>k<nfft. melFilters 44100 500 nfft (melBands (config st)) ! m ! k))
      [0..<melBands (config st)])"
proof -
  let ?bank = "melFilters 44100 500 nfft (melBands (config st))"
  have len: "length (replicate nfft (255::u8)) \<le> length (?bank ! m)"
    if "m < melBands (config st)" for m
    using that nth_melFilters [of "m + 1" "melBands (config st)" 44100 500 nfft] by simp
  have "(\<Sum>k<nfft. real (unat (replicate nfft (255::u8) ! k)) * ?bank ! m ! k) / 255 =
        (\<Sum>k<nfft. ?bank ! m ! k)" for m
  proof -
    have "(\<Sum>k<nfft. real (unat (replicate nfft (255::u8) ! k)) * ?bank ! m ! k) =
        (\<Sum>k<nfft. 255 * ?bank ! m ! k)"
      by (rule sum.cong) simp_all
    then show ?thesis by (simp add: sum_distrib_left [symmetric])
  qed
  then show ?thesis
    using applyMelFiltering_Inr [OF assms, of "replicate nfft 255"] len by simp
qed

lemma band_weight_sum:
  assumes "1 \<le> m" "m \<le> n" "a + 2 < nfft" "ic = m" "ir = m + 1"
    and "clo \<le> hzPoints 44100 500 n ! ic" "hzPoints 44100 500 n ! ic \<le> chi"
    and "rlo \<le> hzPoints 44100 500 n ! ir"
    and "chi < binFreq 44100 nfft a"
    and "binFreq 44100 nfft (a + 2) \<le> rlo"
    and "10 * binFreq 44100 nfft (a + 2) \<le> 3 * rlo + 7 * clo"
  shows "21 / 10 \<le> (\<Sum>k<nfft. melFilters 44100 500 nfft n ! (m - 1) ! k)"
proof -
  let ?l = "hzPoints 44100 500 n ! (m - 1)" and ?c = "hzPoints 44100 500 n ! m"
    and ?r = "hzPoints 44100 500 n ! (m + 1)"
  let ?F = "binFreq 44100 nfft"
  define w where "w k = melFilters 44100 500 nfft n ! (m - 1) ! k" for k
  have nfft: "0 < nfft" using assms(3) by simp
  have F: "?F a < ?F (a + 1)" "?F (a + 1) < ?F (a + 2)"
    using nfft by (simp_all add: binFreq_less)
  have c: "clo \<le> ?c" "?c \<le> chi" and r: "rlo \<le> ?r" using assms(4-8) by simp_all
  have low: "7 / 10 \<le> triangle ?l ?c ?r (?F k)" if "?F a \<le> ?F k" "?F k \<le> ?F (a + 2)" for k
  proof (rule triangle_falling_bound)
    show "?c < ?F k" using c(2) assms(9) that(1) by linarith
    show "?F k \<le> ?r" using r assms(10) that(2) by linarith
    have "10 * ?F k \<le> 3 * ?r + 7 * ?c" using c(1) r assms(11) that(2) by linarith
    then show "7 / 10 * (?r - ?c) \<le> ?r - ?F k" by (simp add: algebra_simps)
  qed
  have w: "7 / 10 \<le> w k" if "k < nfft" "?F a \<le> ?F k" "?F k \<le> ?F (a + 2)" for k
    unfolding w_def
    using low [OF that(2,3)] melFilters_nth_nth [OF assms(1,2) that(1), of 44100 500] by simp
  have w1: "7 / 10 \<le> w a" using w [of a] F assms(3) by simp
  have w2: "7 / 10 \<le> w (a + 1)" using w [of "a + 1"] F assms(3) by simp
  have w3: "7 / 10 \<le> w (a + 2)" using w [of "a + 2"] F assms(3) by simp
  have nonneg: "0 \<le> w k" if "k < nfft" for k
    unfolding w_def using assms(1,2) that by (rule melFilters_nonneg)
  have "w a + w (a + 1) + w (a + 2) \<le> (\<Sum>k<nfft. w k)"
    using nonneg assms(3) by (intro sum_three_le) simp_all
  with w1 w2 w3 have "21 / 10 \<le> (\<Sum>k<nfft. w k)" by linarith
  then show ?thesis unfolding w_def .
qed

lemma mel4_sums:
  "2 < (\<Sum>k<512. melFilters 44100 500 512 4 ! 0 ! k)"
  "2 < (\<Sum>k<512. melFilters 44100 500 512 4 ! 1 ! k)"
  "2 < (\<Sum>k<512. melFilters 44100 500 512 4 ! 2 ! k)"
  "2 < (\<Sum>k<512. melFilters 44100 500 512 4 ! 3 ! k)"
proof -
  have "21 / 10 \<le> (\<Sum>k<512. melFilters 44100 500 512 4 ! (1 - 1) ! k)"
    by (rule band_weight_sum [where a = 35 and ic = 1 and ir = 2, OF _ _ _ _ _ hz4_1 hz4_2(1)])
      (simp_all add: binFreq_def)
  then show "2 < (\<Sum>k<512. melFilters 44100 500 512 4 ! 0 ! k)" by simp
  have "21 / 10 \<le> (\<Sum>k<512. melFilters 44100 500 512 4 ! (2 - 1) ! k)"
    by (rule band_weight_sum [where a = 75 and ic = 2 and ir = 3, OF _ _ _ _ _ hz4_2 hz4_3(1)])
      (simp_all add: binFreq_def)
  then show "2 < (\<Sum>k<512. melFilters 44100 500 512 4 ! 1 ! k)" by simp
  have "21 / 10 \<le> (\<Sum>k<512. melFilters 44100 500 512 4 ! (3 - 1) ! k)"
    by (rule band_weight_sum [where a = 149 and ic = 3 and ir = 4, OF _ _ _ _ _ hz4_3 hz4_4(1)])
      (simp_all add: binFreq_def)
  then show "2 < (\<Sum>k<512. melFilters 44100 500 512 4 ! 2 ! k)" by simp
  have r5: "22050 \<le> hzPoints 44100 500 4 ! 5" by (simp add: hz4_5)
  have "21 / 10 \<le> (\<Sum>k<512. melFilters 44100 500 512 4 ! (4 - 1) ! k)"
    by (rule band_weight_sum [where a = 279 and ic = 4 and ir = 5, OF _ _ _ _ _ hz4_4 r5])
      (simp_all add: binFreq_def)
  then show "2 < (\<Sum>k<512. melFilters 44100 500 512 4 ! 3 ! k)" by simp
qed

text \<open>The default bank (256 bands, 512 bins): breakpoint 256, the centre of the last
  filter, lies between 21784 Hz and 21825 Hz. Its \<open>r\<close> is \<open>65 / 2\<close> divided by the 257th
  root of \<open>455 / 24\<close>, which is bounded through the exponential function.\<close>

lemma root257_lower: "(101 / 100 :: real) ^ 257 \<le> 455 / 24"
proof -
  have "(101 / 100 :: real) \<le> exp (1 / 100)"
    using exp_ge_add_one_self [of "1 / 100 :: real"] by simp
  then have "(101 / 100 :: real) ^ 257 \<le> exp (1 / 100) ^ 257"
    by (rule power_mono) simp
  also have "exp (1 / 100 :: real) ^ 257 = exp (257 / 100)"
    using exp_of_nat_mult [of 257 "1 / 100 :: real"] by simp
  also have "\<dots> \<le> exp (21 / 8)" by simp
  also have "exp (21 / 8 :: real) = exp (1 / 8) ^ 21"
    using exp_of_nat_mult [of 21 "1 / 8 :: real"] by simp
  also have "\<dots> \<le> (73 / 64) ^ 21"
  proof (rule power_mono)
    show "exp (1 / 8 :: real) \<le> 73 / 64"
      using exp_bound [of "1 / 8 :: real"] by (simp add: power2_eq_square)
  qed simp
  also have "(73 / 64 :: real) ^ 21 \<le> 455 / 24" by (simp add: power_divide)
  finally show ?thesis .
qed

lemma root257_upper: "(455 / 24 :: real) \<le> (257 / 254) ^ 257"
proof -
  have "(455 / 24 :: real) \<le> (41 / 32) ^ 12" by (simp add: power_divide)
  also have "\<dots> \<le> exp (1 / 4) ^ 12"
  proof (rule power_mono)
    show "(41 / 32 :: real) \<le> exp (1 / 4)"
      using exp_lower_Taylor_quadratic [of "1 / 4 :: real"] by (simp add: power2_eq_square)
  qed simp
  also have "exp (1 / 4 :: real) ^ 12 = exp 3"
    using exp_of_nat_mult [of 12 "1 / 4 :: real"] by simp
  also have "exp (3 :: real) = exp (3 / 257) ^ 257"
    using exp_of_nat_mult [of 257 "3 / 257 :: real"] by simp
  also have "\<dots> \<le> (257 / 254) ^ 257"
  proof (rule power_mono)
    have "254 / 257 \<le> exp (- (3 / 257) :: real)"
      using exp_ge_add_one_self [of "- (3 / 257) :: real"] by simp
    then have "254 / 257 * exp (3 / 257 :: real) \<le> 1"
      by (simp add: exp_minus field_simps)
    then show "exp (3 / 257 :: real) \<le> 257 / 254" by simp
  qed simp
  finally show ?thesis .
qed

lemma hz256:
  "21784 \<le> hzPoints 44100 500 256 ! 256" "hzPoints 44100 500 256 ! 256 \<le> 21825"
proof -
  define r :: real where "r = 1 + hzPoints 44100 500 256 ! 256 / 700"
  define A :: real where "A = 1 + 500 / 700"
  define B :: real where "B = 1 + 44100 / 1400"
  have "hzPoints 44100 500 256 ! 0 < hzPoints 44100 500 256 ! 256"
    by (rule hzPoints_less) simp_all
  then have r0: "0 < r" by (simp add: r_def hzPoints_first)
  have A0: "0 < A" and B0: "0 < B" and BA: "B / A = 455 / 24" and Bv: "B = 65 / 2"
    by (simp_all add: A_def B_def)
  have "r ^ (256 + 1) = A ^ (256 + 1 - 256) * B ^ 256"
    unfolding r_def A_def B_def by (rule hzPoints_power) simp_all
  moreover have "A ^ (256 + 1 - 256) = A" by simp
  ultimately have pw: "r ^ Suc 256 = A * B ^ 256" by (simp only: Suc_eq_plus1)
  define t where "t = B / r"
  have t0: "0 < t" using r0 B0 by (simp add: t_def)
  have "t ^ Suc 256 = B ^ Suc 256 / r ^ Suc 256" by (simp only: t_def power_divide)
  also have "\<dots> = (B * B ^ 256) / (A * B ^ 256)" unfolding pw by (simp only: power_Suc)
  also have "\<dots> = B / A" using B0 by simp
  finally have tp: "t ^ Suc 256 = 455 / 24" by (simp only: BA)
  have n: "Suc 256 = 257" by simp
  note tp257 = tp [unfolded n]
  have le1: "(101 / 100) ^ Suc 256 \<le> t ^ Suc 256" unfolding n tp257 by (rule root257_lower)
  have t_nonneg: "0 \<le> t" using t0 by simp
  have t_lo: "101 / 100 \<le> t" using le1 t_nonneg by (rule power_le_imp_le_base)
  have le2: "t ^ Suc 256 \<le> (257 / 254) ^ Suc 256" unfolding n tp257 by (rule root257_upper)
  have "(0::real) \<le> 257 / 254" by simp
  with le2 have t_hi: "t \<le> 257 / 254" by (rule power_le_imp_le_base)
  have rt: "r * t = 65 / 2" using r0 by (simp add: t_def Bv)
  have "r * (101 / 100) \<le> r * t" using t_lo r0 by (intro mult_left_mono) simp_all
  then have r_hi: "r \<le> 3250 / 101" using rt by simp
  have "r * t \<le> r * (257 / 254)" using t_hi r0 by (intro mult_left_mono) simp_all
  then have r_lo: "8255 / 257 \<le> r" using rt by simp
  show "21784 \<le> hzPoints 44100 500 256 ! 256" using r_lo by (simp add: r_def)
  show "hzPoints 44100 500 256 ! 256 \<le> 21825" using r_hi by (simp add: r_def)
qed

text \<open>What holds of \<open>applyMelFiltering\<close> with the bank that \<open>createMelFilterBank\<close> built and
  a frame of one byte per bin: it returns \<open>bandCount\<close> numbers, none of them \<open>NaN\<close>, each
  at least 0 and at most the sum of its filter's weights.\<close>

lemma applyMelFiltering_range:
  assumes "melFilterBank st = Some (melFilters 44100 500 nfft (melBands (config st)))"
    "length fftData = nfft" "m < melBands (config st)"
  shows "\<exists>frame v. applyMelFiltering st fftData = Inr frame \<and>
    length frame = melBands (config st) \<and> frame ! m = Num v \<and> 0 \<le> v \<and>
    v \<le> (\<Sum>k<nfft. melFilters 44100 500 nfft (melBands (config st)) ! m ! k)"
proof -
  let ?n = "melBands (config st)"
  let ?bank = "melFilters 44100 500 nfft ?n"
  let ?v = "\<lambda>m. (\<Sum>k<length fftData. real (unat (fftData ! k)) * ?bank ! m ! k) / 255"
  have len: "length fftData \<le> length (?bank ! j)" if "j < ?n" for j
    using that nth_melFilters [of "j + 1" ?n 44100 500 nfft] assms(2) by simp
  have run: "applyMelFiltering st fftData = Inr (map (\<lambda>m. Num (?v m)) [0..<?n])"
    using assms(1) by (intro applyMelFiltering_Inr len) simp_all
  have w0: "0 \<le> ?bank ! m ! k" if "k < nfft" for k
    using melFilters_nonneg [of "m + 1" ?n k nfft] assms(3) that by simp
  have byte: "real (unat (b :: u8)) \<le> 255" for b
  proof -
    have "unat b < 2 ^ LENGTH(8)" by (rule unsigned_less)
    then have "unat b \<le> 255" by simp
    then have "real (unat b) \<le> real 255" by (rule of_nat_mono)
    then show ?thesis by simp
  qed
  have byte0: "0 \<le> real (unat (b :: u8))" for b by (rule of_nat_0_le_iff)
  have "0 \<le> (\<Sum>k<length fftData. real (unat (fftData ! k)) * ?bank ! m ! k)"
    using w0 assms(2) byte0 by (intro sum_nonneg mult_nonneg_nonneg) simp_all
  then have lo: "0 \<le> ?v m" by simp
  have "(\<Sum>k<nfft. real (unat (fftData ! k)) * ?bank ! m ! k) \<le> (\<Sum>k<nfft. 255 * ?bank ! m ! k)"
    using w0 byte by (intro sum_mono mult_right_mono) simp_all
  also have "\<dots> = 255 * (\<Sum>k<nfft. ?bank ! m ! k)" by (simp add: sum_distrib_left)
  finally have hi: "?v m \<le> (\<Sum>k<nfft. ?bank ! m ! k)" using assms(2) by simp
  from run lo hi assms(3) show ?thesis
    by (intro exI [of _ "map (\<lambda>m. Num (?v m)) [0..<?n]"] exI [of _ "?v m"]) simp
qed

lemma default_last_band: "1 < (\<Sum>k<512. melFilters 44100 500 512 256 ! 255 ! k)"
proof -
  let ?l = "hzPoints 44100 500 256 ! 255" and ?c = "hzPoints 44100 500 256 ! 256"
  define w where "w k = melFilters 44100 500 512 256 ! 255 ! k" for k
  have r: "hzPoints 44100 500 256 ! 257 = 22050"
    using hzPoints_last [of 44100 500 256] by simp
  have w: "w k = triangle ?l ?c 22050 (binFreq 44100 512 k)" if "k < 512" for k
    unfolding w_def using melFilters_nth_nth [of 256 256 k 512 44100 500] that r by simp
  have "4 / 5 \<le> triangle ?l ?c 22050 (binFreq 44100 512 507)"
    using hz256 by (intro triangle_falling_bound) (simp_all add: binFreq_def)
  then have w1: "4 / 5 \<le> w 507" by (simp add: w)
  have "3 / 5 \<le> triangle ?l ?c 22050 (binFreq 44100 512 508)"
    using hz256 by (intro triangle_falling_bound) (simp_all add: binFreq_def)
  then have w2: "3 / 5 \<le> w 508" by (simp add: w)
  have nonneg: "0 \<le> w k" if "k < 512" for k
    unfolding w_def using melFilters_nonneg [of 256 256 k 512] that by simp
  have "w 507 + w 508 + w 509 \<le> (\<Sum>k<512. w k)"
    using nonneg by (intro sum_three_le) simp_all
  with w1 w2 nonneg [of 509] have "1 < (\<Sum>k<512. w k)" by simp
  then show ?thesis unfolding w_def .
qed

text \<open>
  Claim C1 at the input where the code departs from it. In the default configuration
  (FFT size 1024, 256 bands) the frame that is 255 in each of the 512 bins is reduced to
  256 values of which the last is greater than 1: the sum is divided by 255 only
  (commented as normalising to 0-1), not by the filter's total weight, and bins 507 and
  508 alone weigh more than 0.8 and 0.6 in the last filter.
\<close>

theorem reduce_default_exceeds_one:
  "\<exists>st frame v. createMelFilterBank initial = Inr st \<and>
     applyMelFiltering st (replicate 512 255) = Inr frame \<and>
     length frame = 256 \<and> frame ! 255 = Num v \<and> 1 < v"
proof -
  let ?st = "initial\<lparr>melFilterBank := Some (melFilters 44100 500 512 256)\<rparr>"
  have cfg: "melBands (config ?st) = 256" by (simp add: initial_def)
  have run: "createMelFilterBank initial = Inr ?st"
    by (simp add: createMelFilterBank_def createMelFilterBankWith_def initial_def)
  have "melFilterBank ?st = Some (melFilters 44100 500 512 (melBands (config ?st)))"
    by (simp add: initial_def)
  from uniform_frame [OF this]
  have frame: "applyMelFiltering ?st (replicate 512 255) =
      Inr (map (\<lambda>m. Num (\<Sum>k<512. melFilters 44100 500 512 256 ! m ! k)) [0..<256])"
    by (simp only: cfg)
  show ?thesis
    using run frame default_last_band
    by (intro exI [of _ ?st]
        exI [of _ "map (\<lambda>m. Num (\<Sum>k<512. melFilters 44100 500 512 256 ! m ! k)) [0..<256]"]
        exI [of _ "\<Sum>k<512. melFilters 44100 500 512 256 ! 255 ! k"]) simp
qed

text \<open>
  Claim C2 in its scenario (FFT size 1024, 4 bands). The bank has 4 filters whose
  centres, breakpoints 1 to 4, increase strictly between 500 Hz and 22050 Hz. The frame
  that is 255 in every bin is reduced to four values that are each greater than 2 (they
  are the filters' total weights, about 31, 56, 101 and 183), not approximately 1.
\<close>

theorem scenario_four_bands:
  "\<exists>st bank frame.
     createMelFilterBank
       (initial\<lparr>config := \<lparr>fftSize = 1024, melBands = 4, spectrogramWidth = 600\<rparr>\<rparr>) = Inr st \<and>
     melFilterBank st = Some bank \<and> length bank = 4 \<and>
     500 < hzPoints 44100 500 4 ! 1 \<and>
     hzPoints 44100 500 4 ! 1 < hzPoints 44100 500 4 ! 2 \<and>
     hzPoints 44100 500 4 ! 2 < hzPoints 44100 500 4 ! 3 \<and>
     hzPoints 44100 500 4 ! 3 < hzPoints 44100 500 4 ! 4 \<and>
     hzPoints 44100 500 4 ! 4 < 22050 \<and>
     applyMelFiltering st (replicate 512 255) = Inr frame \<and>
     (\<exists>v1 v2 v3 v4. frame = [Num v1, Num v2, Num v3, Num v4] \<and>
        2 < v1 \<and> 2 < v2 \<and> 2 < v3 \<and> 2 < v4)"
proof -
  let ?cfg = "\<lparr>fftSize = 1024, melBands = 4, spectrogramWidth = 600\<rparr>"
  let ?bank = "melFilters 44100 500 512 4"
  let ?st = "initial\<lparr>config := ?cfg, melFilterBank := Some ?bank\<rparr>"
  let ?v = "\<lambda>m. \<Sum>k<512. ?bank ! m ! k"
  have cfg: "melBands (config ?st) = 4" by simp
  have run: "createMelFilterBank (initial\<lparr>config := ?cfg\<rparr>) = Inr ?st"
    by (simp add: createMelFilterBank_def createMelFilterBankWith_def)
  have "melFilterBank ?st = Some (melFilters 44100 500 512 (melBands (config ?st)))" by simp
  from uniform_frame [OF this]
  have "applyMelFiltering ?st (replicate 512 255) = Inr (map (\<lambda>m. Num (?v m)) [0..<4])"
    by (simp only: cfg)
  moreover have "[0..<4] = [0, 1, 2, 3]" by code_simp
  ultimately have frame: "applyMelFiltering ?st (replicate 512 255) =
      Inr [Num (?v 0), Num (?v 1), Num (?v 2), Num (?v 3)]" by simp
  have centres: "500 < hzPoints 44100 500 4 ! 1"
    "hzPoints 44100 500 4 ! 1 < hzPoints 44100 500 4 ! 2"
    "hzPoints 44100 500 4 ! 2 < hzPoints 44100 500 4 ! 3"
    "hzPoints 44100 500 4 ! 3 < hzPoints 44100 500 4 ! 4"
    "hzPoints 44100 500 4 ! 4 < 22050"
    using hz4_1 hz4_2 hz4_3 hz4_4 by simp_all
  show ?thesis
    using run frame centres mel4_sums
    by (intro exI [of _ ?st] exI [of _ ?bank]
        exI [of _ "[Num (?v 0), Num (?v 1), Num (?v 2), Num (?v 3)]"]) simp
qed

text \<open>
  Claim C3, as stated, asks that each filter's weights strictly increase and then
  decrease. In the bank of 4 bands and 512 bins the first filter has weight 0 at bins
  0 and 1 (0 Hz and 43 Hz, below the left edge 500 Hz) and a positive weight at bin 12:
  no split into a strictly increasing run followed by a decreasing run exists.
\<close>

theorem strictlyUnimodal_counterexample:
  "\<not> strictlyUnimodal (melFilters 44100 500 512 4 ! 0)"
proof
  define ws where "ws = melFilters 44100 500 512 4 ! 0"
  assume "strictlyUnimodal (melFilters 44100 500 512 4 ! 0)"
  then obtain p where up: "sorted_wrt (<) (take p ws)" and down: "sorted_wrt (\<ge>) (drop p ws)"
    unfolding strictlyUnimodal_def ws_def by auto
  have len: "length ws = 512"
    unfolding ws_def using nth_melFilters [of 1 4 44100 500 512] by simp
  have w: "ws ! k = triangle 500 (hzPoints 44100 500 4 ! 1) (hzPoints 44100 500 4 ! 2)
      (binFreq 44100 512 k)" if "k < 512" for k
    unfolding ws_def using melFilters_nth_nth [of 1 4 k 512 44100 500] that
    by (simp add: hzPoints_first numeral_2_eq_2)
  have w0: "ws ! 0 = 0" using w [of 0] hz4_1 by (simp add: triangle_def binFreq_def)
  have w1: "ws ! 1 = 0" using w [of 1] hz4_1 by (simp add: triangle_def binFreq_def)
  have w12: "0 < ws ! 12" using w [of 12] hz4_1 by (simp add: triangle_def binFreq_def)
  show False
  proof (cases "2 \<le> p")
    case True
    then have "take p ws ! 0 < take p ws ! 1"
      using up [unfolded sorted_wrt_iff_nth_less, rule_format, of 0 1] len by simp
    with True w0 w1 show False by simp
  next
    case False
    then have "drop p ws ! (12 - p) \<le> drop p ws ! (1 - p)"
      using down [unfolded sorted_wrt_iff_nth_less, rule_format, of "1 - p" "12 - p"] len by simp
    with False w1 w12 len show False by simp
  qed
qed

subsection \<open>History buffer\<close>

lemma pushFrame_length: "length buf \<le> w \<Longrightarrow> length (pushFrame w f buf) \<le> w"
  by (auto simp: pushFrame_def Let_def)

lemma fold_pushFrame_length:
  "length buf \<le> w \<Longrightarrow> length (fold (pushFrame w) fs buf) \<le> w"
  by (induction fs arbitrary: buf) (simp_all add: pushFrame_length)

lemma fold_pushFrame_drop:
  "length buf \<le> w \<Longrightarrow>
   fold (pushFrame w) fs buf = drop (length buf + length fs - w) (buf @ fs)"
proof (induction fs arbitrary: buf)
  case Nil
  then show ?case by simp
next
  case (Cons f fs)
  let ?b = "pushFrame w f buf"
  have len: "length ?b \<le> w" using Cons.prems by (rule pushFrame_length)
  have "fold (pushFrame w) (f # fs) buf = drop (length ?b + length fs - w) (?b @ fs)"
    using Cons.IH [OF len] by simp
  also have "\<dots> = drop (length buf + length (f # fs) - w) (buf @ f # fs)"
  proof (cases "length buf < w")
    case True
    then show ?thesis by (simp add: pushFrame_def)
  next
    case False
    with Cons.prems have eq: "length buf = w" by simp
    then have b: "?b = tl (buf @ [f])" by (simp add: pushFrame_def)
    have "drop (Suc (length fs)) (buf @ f # fs) = drop (length fs) (tl (buf @ [f]) @ fs)"
      by (cases buf) simp_all
    with eq b show ?thesis by simp
  qed
  finally show ?case .
qed

text \<open>A tick of \<open>updateSpectrogram\<close> that returns has pushed exactly one frame, the one
  \<open>applyMelFiltering\<close> made of the analyser's data, or (when not recording) none.\<close>

lemma updateTexture_spectrogramData: "spectrogramData (updateTexture st) = spectrogramData st"
  by (simp add: updateTexture_def Let_def split: option.splits)

lemma updateSpectrogram_history:
  assumes "updateSpectrogram bins st = Inr st'"
  shows "spectrogramData st' = spectrogramData st \<or>
         (\<exists>melData. spectrogramData st' =
            pushFrame (spectrogramWidth (config st)) melData (spectrogramData st))"
  using assms
  by (auto simp: updateSpectrogram_def Let_def updateTexture_spectrogramData
           split: if_splits sum.splits)

lemma updateSpectrogram_length:
  assumes "updateSpectrogram bins st = Inr st'"
    and "length (spectrogramData st) \<le> spectrogramWidth (config st)"
  shows "length (spectrogramData st') \<le> spectrogramWidth (config st)"
  using updateSpectrogram_history [OF assms(1)] assms(2)
  by (auto simp: pushFrame_length)

lemma recreateTexture_history:
  "recreateTexture st = Inr st' \<Longrightarrow> spectrogramData st' = []"
  by (auto simp: recreateTexture_def Let_def split: option.splits)

text \<open>
  Claim C4. The history buffer never holds more than \<open>W\<close> frames: from a buffer of at most
  \<open>W\<close> frames, pushing the frames \<open>fs\<close> one after the other (each push followed by the
  guarded shift of \<open>updateSpectrogram\<close>) leaves at most \<open>W\<close> frames, namely the last \<open>W\<close>
  of the old frames followed by the pushed ones, in their order; once \<open>W\<close> or more frames
  have been pushed these are exactly the last \<open>W\<close> pushed frames.
\<close>

theorem history_fifo:
  "length buf \<le> w \<Longrightarrow>
     length (fold (pushFrame w) fs buf) \<le> w \<and>
     fold (pushFrame w) fs buf = drop (length buf + length fs - w) (buf @ fs) \<and>
     (w \<le> length fs \<longrightarrow> fold (pushFrame w) fs buf = drop (length fs - w) fs)"
  by (simp add: fold_pushFrame_length fold_pushFrame_drop)

theorem history_fifo_witness:
  "length [1::nat, 2] \<le> 3 \<and> 3 \<le> length [10::nat, 20, 30, 40, 50] \<and>
   fold (pushFrame 3) [10, 20, 30, 40, 50] [1::nat, 2] = [30, 40, 50]"
  using history_fifo [of "[1::nat, 2]" 3 "[10, 20, 30, 40, 50]"] by simp

subsection \<open>Texture updates\<close>

lemma length_copyPixel [simp]: "length (copyPixel s t d) = length d"
  by (simp add: copyPixel_def store8_def Let_def)

lemma copyPixel_other:
  "i < t \<or> t + 4 \<le> i \<Longrightarrow> copyPixel s t d ! i = d ! i"
  by (auto simp: copyPixel_def store8_def Let_def)

lemma copyPixel_dst:
  assumes "s + 4 \<le> length d" "t + 4 \<le> s" "c < 4"
  shows "copyPixel s t d ! (t + c) = d ! (s + c)"
proof -
  from assms(3) consider "c = 0" | "c = 1" | "c = 2" | "c = 3" by linarith
  then show ?thesis
    using assms(1,2)
    by cases (simp_all add: copyPixel_def store8_def load8_def Let_def nth_list_update)
qed

text \<open>The inner loop: after its first n iterations on the row that starts at pixel base.\<close>

lemma shiftRow_prefix:
  assumes "(base + n + 1) * 4 \<le> length d"
  shows "length (fold (\<lambda>x. copyPixel ((base + x + 1) * 4) ((base + x) * 4)) [0..<n] d) = length d \<and>
    (\<forall>p c. c < 4 \<longrightarrow>
       fold (\<lambda>x. copyPixel ((base + x + 1) * 4) ((base + x) * 4)) [0..<n] d ! (p * 4 + c) =
         (if base \<le> p \<and> p < base + n then d ! ((p + 1) * 4 + c) else d ! (p * 4 + c)))"
  using assms
proof (induction n)
  case 0
  then show ?case by auto
next
  case (Suc n)
  let ?r = "fold (\<lambda>x. copyPixel ((base + x + 1) * 4) ((base + x) * 4)) [0..<n] d"
  from Suc have len: "length ?r = length d"
    and IH: "\<And>p c. c < 4 \<Longrightarrow> ?r ! (p * 4 + c) =
         (if base \<le> p \<and> p < base + n then d ! ((p + 1) * 4 + c) else d ! (p * 4 + c))"
    by simp_all
  have step: "fold (\<lambda>x. copyPixel ((base + x + 1) * 4) ((base + x) * 4)) [0..<Suc n] d =
      copyPixel ((base + n + 1) * 4) ((base + n) * 4) ?r"
    by simp
  show ?case
  proof (intro conjI allI impI)
    show "length (fold (\<lambda>x. copyPixel ((base + x + 1) * 4) ((base + x) * 4)) [0..<Suc n] d) = length d"
      using len by simp
  next
    fix p c :: nat
    assume c: "c < 4"
    show "fold (\<lambda>x. copyPixel ((base + x + 1) * 4) ((base + x) * 4)) [0..<Suc n] d ! (p * 4 + c) =
         (if base \<le> p \<and> p < base + Suc n then d ! ((p + 1) * 4 + c) else d ! (p * 4 + c))"
    proof (cases "p = base + n")
      case True
      have "copyPixel ((base + n + 1) * 4) ((base + n) * 4) ?r ! ((base + n) * 4 + c) =
            ?r ! ((base + n + 1) * 4 + c)"
        using Suc.prems len c by (intro copyPixel_dst) simp_all
      also have "\<dots> = d ! ((base + n + 1) * 4 + c)"
        using IH [OF c, of "base + n + 1"] by simp
      finally show ?thesis using True step by simp
    next
      case False
      then have "p * 4 + c < (base + n) * 4 \<or> (base + n) * 4 + 4 \<le> p * 4 + c"
        using c by (cases "p < base + n") auto
      then have "copyPixel ((base + n + 1) * 4) ((base + n) * 4) ?r ! (p * 4 + c) = ?r ! (p * 4 + c)"
        by (rule copyPixel_other)
      with IH [OF c, of p] False step show ?thesis by auto
    qed
  qed
qed

lemma row_pixel:
  fixes w x y y' :: nat
  assumes "x < w"
  shows "(y * w \<le> y' * w + x \<and> y' * w + x < y * w + (w - 1)) \<longleftrightarrow> (y' = y \<and> x + 1 < w)"
proof (cases y' y rule: linorder_cases)
  case less
  then have "Suc y' * w \<le> y * w" by (intro mult_le_mono1) simp
  with assms less show ?thesis by auto
next
  case equal
  with assms show ?thesis by auto
next
  case greater
  then have "Suc y * w \<le> y' * w" by (intro mult_le_mono1) simp
  with assms greater show ?thesis by auto
qed

lemma pixel_bound:
  fixes w x y bands :: nat
  assumes "x < w" "y < bands"
  shows "y * w + x < w * bands"
proof -
  have "Suc y * w \<le> bands * w" using assms(2) by (intro mult_le_mono1) simp
  with assms(1) show ?thesis by (simp add: mult.commute)
qed

lemma length_shiftRow [simp]: "length (shiftRow w y d) = length d"
proof -
  have "length (fold (\<lambda>x. copyPixel (f x) (g x)) xs d) = length d" for f g :: "nat \<Rightarrow> nat" and xs
    by (induction xs arbitrary: d) simp_all
  then show ?thesis by (simp add: shiftRow_def)
qed

lemma shiftRow_nth:
  assumes "(y * w + w) * 4 \<le> length d" "x < w" "c < 4"
  shows "shiftRow w y d ! ((y' * w + x) * 4 + c) =
    (if y' = y \<and> x + 1 < w then d ! ((y * w + x + 1) * 4 + c) else d ! ((y' * w + x) * 4 + c))"
proof -
  from assms(2) have w: "0 < w" by simp
  have "(y * w + (w - 1) + 1) * 4 \<le> length d" using assms(1) w by simp
  from shiftRow_prefix [OF this] assms(3)
  have "shiftRow w y d ! ((y' * w + x) * 4 + c) =
      (if y * w \<le> y' * w + x \<and> y' * w + x < y * w + (w - 1)
       then d ! ((y' * w + x + 1) * 4 + c) else d ! ((y' * w + x) * 4 + c))"
    unfolding shiftRow_def by blast
  then show ?thesis using row_pixel [OF assms(2), of y y'] by auto
qed

lemma length_shiftLeft [simp]: "length (shiftLeft w bands d) = length d"
proof -
  have "length (fold (shiftRow w) ys d) = length d" for ys
    by (induction ys arbitrary: d) simp_all
  then show ?thesis by (simp add: shiftLeft_def)
qed

lemma shiftLeft_nth:
  assumes "w * bands * 4 \<le> length d" "x < w" "c < 4"
  shows "shiftLeft w bands d ! ((y' * w + x) * 4 + c) =
    (if y' < bands \<and> x + 1 < w then d ! ((y' * w + x + 1) * 4 + c)
     else d ! ((y' * w + x) * 4 + c))"
  using assms(1,2)
proof (induction bands arbitrary: x y')
  case 0
  then show ?case by (simp add: shiftLeft_def)
next
  case (Suc m)
  let ?r = "shiftLeft w m d"
  have step: "shiftLeft w (Suc m) d = shiftRow w m ?r" by (simp add: shiftLeft_def)
  have small: "w * m * 4 \<le> length d" using Suc.prems(1) by simp
  have row: "(m * w + w) * 4 \<le> length ?r" using Suc.prems(1) by (simp add: algebra_simps)
  have "shiftRow w m ?r ! ((y' * w + x) * 4 + c) =
    (if y' = m \<and> x + 1 < w then ?r ! ((m * w + x + 1) * 4 + c) else ?r ! ((y' * w + x) * 4 + c))"
    using row Suc.prems(2) assms(3) by (rule shiftRow_nth)
  also have "\<dots> = (if y' < Suc m \<and> x + 1 < w then d ! ((y' * w + x + 1) * 4 + c)
     else d ! ((y' * w + x) * 4 + c))"
  proof (cases "y' = m \<and> x + 1 < w")
    case True
    then have "?r ! ((m * w + (x + 1)) * 4 + c) = d ! ((m * w + (x + 1)) * 4 + c)"
      using Suc.IH [OF small, of "x + 1" m] by simp
    with True show ?thesis by (simp add: add.assoc)
  next
    case False
    then show ?thesis using Suc.IH [OF small Suc.prems(2), of y'] by auto
  qed
  finally show ?case using step by simp
qed

lemma length_writePixel [simp]: "length (writePixel f w y d) = length d"
  by (simp add: writePixel_def Let_def)

lemma length_writeColumn [simp]: "length (writeColumn f w bands d) = length d"
proof -
  have "length (fold (writePixel f w) ys d) = length d" for ys
    by (induction ys arbitrary: d) simp_all
  then show ?thesis by (simp add: writeColumn_def)
qed

lemma last_pixel:
  fixes w x y y' :: nat
  assumes "x < w"
  shows "y' * w + x = y * w + (w - 1) \<longleftrightarrow> y' = y \<and> x + 1 = w"
proof (cases y' y rule: linorder_cases)
  case less
  then have "Suc y' * w \<le> y * w" by (intro mult_le_mono1) simp
  with assms less show ?thesis by auto
next
  case equal
  with assms show ?thesis by auto
next
  case greater
  then have "Suc y * w \<le> y' * w" by (intro mult_le_mono1) simp
  with assms greater show ?thesis by auto
qed

lemma writePixel_nth:
  assumes "(y' * w + x) * 4 + c < length d" "x < w" "c < 4"
  shows "writePixel f w y d ! ((y' * w + x) * 4 + c) =
    (if y' = y \<and> x + 1 = w then (if c < 3 then columnByte f y else 255)
     else d ! ((y' * w + x) * 4 + c))"
proof -
  from assms(3) consider "c = 0" | "c = 1" | "c = 2" | "c = 3" by linarith
  then show ?thesis
  proof cases
    case 1
    then show ?thesis
      using assms(1,2) last_pixel [OF assms(2), of y' y]
      by (auto simp: writePixel_def Let_def nth_list_update)
  next
    case 2
    then show ?thesis
      using assms(1,2) last_pixel [OF assms(2), of y' y]
      by (auto simp: writePixel_def Let_def nth_list_update)
  next
    case 3
    then show ?thesis
      using assms(1,2) last_pixel [OF assms(2), of y' y]
      by (auto simp: writePixel_def Let_def nth_list_update)
  next
    case 4
    then show ?thesis
      using assms(1,2) last_pixel [OF assms(2), of y' y]
      by (auto simp: writePixel_def Let_def nth_list_update)
  qed
qed

lemma writeColumn_nth:
  assumes "(y' * w + x) * 4 + c < length d" "x < w" "c < 4"
  shows "writeColumn f w bands d ! ((y' * w + x) * 4 + c) =
    (if y' < bands \<and> x + 1 = w then (if c < 3 then columnByte f y' else 255)
     else d ! ((y' * w + x) * 4 + c))"
proof (induction bands)
  case 0
  then show ?case by (simp add: writeColumn_def)
next
  case (Suc m)
  have step: "writeColumn f w (Suc m) d = writePixel f w m (writeColumn f w m d)"
    by (simp add: writeColumn_def)
  have "writePixel f w m (writeColumn f w m d) ! ((y' * w + x) * 4 + c) =
    (if y' = m \<and> x + 1 = w then (if c < 3 then columnByte f m else 255)
     else writeColumn f w m d ! ((y' * w + x) * 4 + c))"
    using assms by (intro writePixel_nth) simp_all
  with Suc step show ?case by auto
qed

lemma length_shiftAndAppend [simp]: "length (shiftAndAppend w bands f d) = length d"
  by (simp add: shiftAndAppend_def)

lemma shiftAndAppend_nth:
  assumes "length d = w * bands * 4" "x < w" "y < bands" "c < 4"
  shows "shiftAndAppend w bands f d ! ((y * w + x) * 4 + c) =
    (if x + 1 < w then d ! ((y * w + x + 1) * 4 + c)
     else if c < 3 then columnByte f y else 255)"
proof -
  have "y * w + x < w * bands" using assms(2,3) by (rule pixel_bound)
  then have idx: "(y * w + x) * 4 + c < length (shiftLeft w bands d)"
    using assms(1,4) by simp
  have "shiftAndAppend w bands f d ! ((y * w + x) * 4 + c) =
    (if y < bands \<and> x + 1 = w then (if c < 3 then columnByte f y else 255)
     else shiftLeft w bands d ! ((y * w + x) * 4 + c))"
    unfolding shiftAndAppend_def using idx assms(2,4) by (rule writeColumn_nth)
  moreover have "shiftLeft w bands d ! ((y * w + x) * 4 + c) =
    (if y < bands \<and> x + 1 < w then d ! ((y * w + x + 1) * 4 + c)
     else d ! ((y * w + x) * 4 + c))"
    using assms(1,2,4) by (intro shiftLeft_nth) simp_all
  ultimately show ?thesis using assms(2,3) by auto
qed

lemma cell_channels:
  "cell w d x y = (d ! ((y * w + x) * 4 + 0), d ! ((y * w + x) * 4 + 1),
     d ! ((y * w + x) * 4 + 2), d ! ((y * w + x) * 4 + 3))"
  by (simp add: cell_def Let_def)

lemma shiftAndAppend_cell:
  assumes "length d = w * bands * 4" "x < w" "y < bands"
  shows "cell w (shiftAndAppend w bands f d) x y =
    (if x + 1 < w then cell w d (x + 1) y else framePixel f y)"
  unfolding cell_channels framePixel_def
  using shiftAndAppend_nth [OF assms, of 0 f] shiftAndAppend_nth [OF assms, of 1 f]
    shiftAndAppend_nth [OF assms, of 2 f] shiftAndAppend_nth [OF assms, of 3 f]
  by (simp add: add.assoc)

lemma length_fold_shiftAndAppend [simp]:
  "length (fold (shiftAndAppend w bands) fs d) = length d"
  by (induction fs arbitrary: d) simp_all

lemma fold_shiftAndAppend_cell:
  assumes "length d = w * bands * 4" "x < w" "y < bands"
  shows "cell w (fold (shiftAndAppend w bands) fs d) x y =
    (if x + length fs < w then cell w d (x + length fs) y
     else framePixel (fs ! (x + length fs - w)) y)"
  using assms(2)
proof (induction fs arbitrary: x rule: rev_induct)
  case Nil
  then show ?case by simp
next
  case (snoc g fs)
  let ?r = "fold (shiftAndAppend w bands) fs d"
  have len: "length ?r = w * bands * 4" using assms(1) by simp
  have "cell w (shiftAndAppend w bands g ?r) x y =
      (if x + 1 < w then cell w ?r (x + 1) y else framePixel g y)"
    using len snoc.prems assms(3) by (rule shiftAndAppend_cell)
  moreover have "cell w ?r (x + 1) y =
      (if x + 1 + length fs < w then cell w d (x + 1 + length fs) y
       else framePixel (fs ! (x + 1 + length fs - w)) y)" if "x + 1 < w"
    using snoc.IH [OF that] .
  ultimately show ?case
    using snoc.prems by (auto simp: nth_append)
qed

lemma columnByte_uint:
  assumes "0 \<le> orZero f y"
  shows "uint (columnByte f y) = \<lfloor>min 1 (orZero f y) * 255\<rfloor>"
proof -
  let ?n = "\<lfloor>min 1 (orZero f y) * 255\<rfloor>"
  have "0 \<le> min 1 (orZero f y) * 255" using assms by simp
  then have lo: "0 \<le> ?n" by simp
  have "min 1 (orZero f y) * 255 \<le> 255" by simp
  then have "?n \<le> 255" by (simp add: floor_le_iff)
  with lo have "?n mod 256 = ?n" by simp
  then show ?thesis by (simp add: columnByte_def toUint8_def Let_def uint_word_of_int)
qed

lemma length_fillOpaque [simp]: "length (fillOpaque i d) = length d"
proof (induction i d rule: fillOpaque.induct)
  case (1 i d)
  show ?case
  proof (cases "i < length d")
    case True
    with 1 show ?thesis by (subst fillOpaque.simps) simp
  next
    case False
    then show ?thesis by (subst fillOpaque.simps) simp
  qed
qed

lemma fillOpaque_nth:
  "4 dvd i \<Longrightarrow> 4 dvd length d \<Longrightarrow> j < length d \<Longrightarrow>
   fillOpaque i d ! j = (if j < i then d ! j else if j mod 4 = 3 then 255 else 0)"
proof (induction i d rule: fillOpaque.induct)
  case (1 i d)
  show ?case
  proof (cases "i < length d")
    case False
    with "1.prems" show ?thesis by (subst fillOpaque.simps) simp
  next
    case True
    let ?d = "d[i := 0, i + 1 := 0, i + 2 := 0, i + 3 := 255]"
    have unf: "fillOpaque i d = fillOpaque (i + 4) ?d"
      using True by (subst fillOpaque.simps) simp
    have IH: "fillOpaque (i + 4) ?d ! j =
        (if j < i + 4 then ?d ! j else if j mod 4 = 3 then 255 else 0)"
      using "1.IH" [OF True] "1.prems" by simp
    from "1.prems"(1) obtain q where q: "i = 4 * q" by (auto simp: dvd_def)
    from "1.prems"(2) obtain n where n: "length d = 4 * n" by (auto simp: dvd_def)
    from True q n have room: "i + 3 < length d" by simp
    consider "j < i" | "j = i" | "j = i + 1" | "j = i + 2" | "j = i + 3" | "i + 4 \<le> j"
      by linarith
    then show ?thesis
    proof cases
      case 1
      then show ?thesis using unf IH by simp
    next
      case 2
      then show ?thesis using unf IH room q by simp
    next
      case 3
      then show ?thesis using unf IH room q by (simp add: mod_Suc)
    next
      case 4
      then show ?thesis using unf IH room q by (simp add: mod_Suc)
    next
      case 5
      then show ?thesis using unf IH room q by (simp add: mod_Suc)
    next
      case 6
      then show ?thesis using unf IH by simp
    qed
  qed
qed

lemma updateTexture_image:
  assumes "spectrogramTexture st = Some tex" "spectrogramData st \<noteq> []"
  shows "spectrogramTexture (updateTexture st) =
    Some (tex\<lparr>image_data :=
        shiftAndAppend (spectrogramWidth (config st)) (melBands (config st))
          (last (spectrogramData st)) (image_data tex),
      needsUpdate := True\<rparr>)"
  using assms by (simp add: updateTexture_def Let_def)

text \<open>
  Claim C5. On an image of \<open>W\<close> columns and \<open>bandCount\<close> rows, one application of
  \<open>shiftAndAppend\<close> (the two loop nests of \<open>updateTexture\<close>) leaves in every column but the
  last the cell that was one column to the right, so the old column 0 is gone, and in the
  last column the newest frame's band value as a byte in the three colour channels with
  alpha 255; the image keeps its size. After \<open>W\<close> applications with the frames
  \<open>fs = f_1 .. f_W\<close>, column \<open>x\<close> holds the bytes of frame \<open>fs ! x\<close>, whatever the image
  was before.
\<close>

theorem shiftAndAppend_columns:
  assumes "length d = w * bands * 4" "x < w" "y < bands"
  shows "cell w (shiftAndAppend w bands f d) x y =
           (if x + 1 < w then cell w d (x + 1) y else framePixel f y) \<and>
         length (shiftAndAppend w bands f d) = length d \<and>
         (length fs = w \<longrightarrow>
            cell w (fold (shiftAndAppend w bands) fs d) x y = framePixel (fs ! x) y)"
  using shiftAndAppend_cell [OF assms] fold_shiftAndAppend_cell [OF assms, of fs]
  by simp

theorem shiftAndAppend_columns_witness:
  "cell 2 (fold (shiftAndAppend 2 1) [[Num (1 / 2)], [Num 3]] [1, 2, 3, 4, 5, 6, 7, 8]) 0 0 =
     (127, 127, 127, 255) \<and>
   cell 2 (shiftAndAppend 2 1 [Num 3] [1, 2, 3, 4, 5, 6, 7, 8]) 0 0 = (5, 6, 7, 8)"
proof -
  have len: "length [1, 2, 3, 4, 5, 6, 7, 8 :: u8] = 2 * 1 * 4" by simp
  have x: "(0::nat) < 2" and y: "(0::nat) < 1" by simp_all
  from shiftAndAppend_columns [OF len x y, of "[Num 3]" "[[Num (1 / 2)], [Num 3]]"]
  show ?thesis
    by (simp add: framePixel_def columnByte_def orZero_def toUint8_def cell_def Let_def)
qed

text \<open>
  Claim C7, as stated: the byte written for a band value is that of the value clamped to
  \<open>[0, 1]\<close> and scaled. \<open>updateTexture\<close> bounds the value from above only
  (\<open>Math.min(1.0, v || 0)\<close>), so a negative value is scaled as it is and the store wraps
  it: \<open>-0.5\<close> gives \<open>floor(-127.5) = -128\<close>, stored as 128, where the clamped value
  gives 0.
\<close>

theorem columnByte_clamp_counterexample:
  "columnByte [Num (- 1 / 2)] 0 \<noteq> clampedByte (orZero [Num (- 1 / 2)] 0)"
  by (simp add: columnByte_def clampedByte_def orZero_def toUint8_def Let_def)

text \<open>
  Claim C7, amended. For every band value that is missing, \<open>NaN\<close> or not negative (so that
  \<open>latestData[y] || 0\<close> is at least 0), the byte written is that of the value clamped to
  \<open>[0, 1]\<close> and scaled by 255, rounded down: a number from 0 to 255 that the store does
  not wrap.
\<close>

theorem columnByte_clamp:
  assumes "0 \<le> orZero latestData y"
  shows "columnByte latestData y = clampedByte (orZero latestData y) \<and>
         uint (columnByte latestData y) = \<lfloor>max 0 (min 1 (orZero latestData y)) * 255\<rfloor> \<and>
         uint (columnByte latestData y) \<le> 255"
proof -
  have m: "max 0 (min 1 (orZero latestData y)) = min 1 (orZero latestData y)"
    using assms by simp
  have "uint (columnByte latestData y) \<le> 255"
    using uint_bounded [of "columnByte latestData y"] by simp
  with m columnByte_uint [OF assms] show ?thesis
    by (simp add: columnByte_def clampedByte_def Let_def)
qed

theorem columnByte_clamp_witness:
  "0 \<le> orZero [Num 3, NaN] 0 \<and> columnByte [Num 3, NaN] 0 = 255 \<and>
   0 \<le> orZero [Num 3, NaN] 1 \<and> columnByte [Num 3, NaN] 1 = 0 \<and>
   0 \<le> orZero [Num 3, NaN] 2 \<and> columnByte [Num 3, NaN] 2 = 0"
proof -
  have a: "0 \<le> orZero [Num 3, NaN] 0" and b: "0 \<le> orZero [Num 3, NaN] 1"
    and c: "0 \<le> orZero [Num 3, NaN] 2"
    by (simp_all add: orZero_def)
  from columnByte_clamp [OF a] columnByte_clamp [OF b] columnByte_clamp [OF c] a b c
  show ?thesis
    by (simp add: clampedByte_def orZero_def toUint8_def)
qed

lemma pixel_index_bound:
  fixes w x y bands c :: nat
  assumes "x < w" "y < bands" "c < 4"
  shows "(y * w + x) * 4 + c < w * bands * 4"
  using pixel_bound [OF assms(1,2)] assms(3) by simp

lemma createSpectrogramPlane_cell:
  assumes "spectrogramTexture (createSpectrogramPlane st) = Some tex"
    "x < spectrogramWidth (config st)" "y < melBands (config st)"
  shows "cell (spectrogramWidth (config st)) (image_data tex) x y = (0, 0, 0, 255)"
proof -
  let ?w = "spectrogramWidth (config st)" and ?b = "melBands (config st)"
  let ?z = "replicate (?w * ?b * 4) (0::u8)"
  have data: "image_data tex = fillOpaque 0 ?z"
    using assms(1) by (auto simp: createSpectrogramPlane_def newTexture_def Let_def)
  have nth: "fillOpaque 0 ?z ! ((y * ?w + x) * 4 + c) = (if c = 3 then 255 else 0)" if "c < 4" for c
  proof -
    have "(y * ?w + x) * 4 + c < length ?z"
      using pixel_index_bound [OF assms(2,3) that] by simp
    moreover have "((y * ?w + x) * 4 + c) mod 4 = c"
      using that by (subst mod_mult_self3) simp
    ultimately show ?thesis by (subst fillOpaque_nth) simp_all
  qed
  show ?thesis
    unfolding cell_channels data using nth [of 0] nth [of 1] nth [of 2] nth [of 3] by simp
qed

lemma createSpectrogramPlane_greyOpaque:
  assumes "spectrogramTexture (createSpectrogramPlane st) = Some tex"
  shows "greyOpaque (spectrogramWidth (config st)) (melBands (config st)) (image_data tex)"
  using createSpectrogramPlane_cell [OF assms] by (simp add: greyOpaque_def)

lemma shiftAndAppend_greyOpaque:
  assumes "length d = w * bands * 4" "greyOpaque w bands d"
  shows "greyOpaque w bands (shiftAndAppend w bands f d)"
  unfolding greyOpaque_def
proof (intro ballI)
  fix x y assume y: "y \<in> {0..<bands}" and x: "x \<in> {0..<w}"
  then have "cell w (shiftAndAppend w bands f d) x y =
      (if x + 1 < w then cell w d (x + 1) y else framePixel f y)"
    using assms(1) by (intro shiftAndAppend_cell) simp_all
  moreover have "case cell w d (x + 1) y of (r, g, b, a) \<Rightarrow> r = g \<and> g = b \<and> a = 255"
    if "x + 1 < w"
    using assms(2) that y by (simp add: greyOpaque_def)
  ultimately show "case cell w (shiftAndAppend w bands f d) x y of
      (r, g, b, a) \<Rightarrow> r = g \<and> g = b \<and> a = 255"
    by (simp add: framePixel_def)
qed

lemma recreateTexture_cell:
  assumes "recreateTexture st = Inr st'" "x < spectrogramWidth (config st)"
    "y < melBands (config st)"
  shows "\<exists>tex. spectrogramTexture st' = Some tex \<and>
    cell (spectrogramWidth (config st)) (image_data tex) x y = (0, 0, 0, 0)"
proof -
  let ?w = "spectrogramWidth (config st)" and ?b = "melBands (config st)"
  from assms(1) have tex: "spectrogramTexture st' = Some (newTexture (replicate (?w * ?b * 4) 0) (config st))"
    by (auto simp: recreateTexture_def Let_def split: option.splits)
  have "replicate (?w * ?b * 4) (0::u8) ! ((y * ?w + x) * 4 + c) = 0" if "c < 4" for c
    using pixel_index_bound [OF assms(2,3) that] by simp
  from this [of 0] this [of 1] this [of 2] this [of 3] tex show ?thesis
    by (simp add: cell_channels newTexture_def)
qed

text \<open>
  Claim C8 at the input where the code departs from it. \<open>createSpectrogramPlane\<close> makes
  every cell \<open>(0, 0, 0, 255)\<close> and \<open>shiftAndAppend\<close> keeps every cell grey and opaque (the
  lemmas above), but \<open>recreateTexture\<close> allocates a zeroed array and does not run the fill
  loop: after the band count is set to 128 on the initial image, the cell at column 0 of
  row 0 (as every other cell) is \<open>(0, 0, 0, 0)\<close>, with alpha 0.
\<close>

theorem recreateTexture_alpha:
  "map_sum id (\<lambda>st'. map_option (\<lambda>tex. cell 600 (image_data tex) 0 0) (spectrogramTexture st'))
     (recreateTexture ((createSpectrogramPlane initial)
        \<lparr>config := (config initial)\<lparr>melBands := 128\<rparr>\<rparr>)) =
   Inr (Some (0, 0, 0, 0)) \<and>
   map_option (\<lambda>tex. cell 600 (image_data tex) 0 0)
     (spectrogramTexture (createSpectrogramPlane initial)) = Some (0, 0, 0, 255)"
proof -
  let ?st = "(createSpectrogramPlane initial)\<lparr>config := (config initial)\<lparr>melBands := 128\<rparr>\<rparr>"
  obtain tex where t: "spectrogramTexture (createSpectrogramPlane initial) = Some tex"
    by (simp add: createSpectrogramPlane_def Let_def)
  have "cell (spectrogramWidth (config initial)) (image_data tex) 0 0 = (0, 0, 0, 255)"
    using t by (rule createSpectrogramPlane_cell) (simp_all add: initial_def)
  then have a: "map_option (\<lambda>tex. cell 600 (image_data tex) 0 0)
     (spectrogramTexture (createSpectrogramPlane initial)) = Some (0, 0, 0, 255)"
    using t by (simp add: initial_def)
  have cfg: "spectrogramWidth (config ?st) = 600" "melBands (config ?st) = 128"
    by (simp_all add: initial_def)
  have "spectrogramTexture ?st = Some tex" using t by simp
  then obtain st' where r: "recreateTexture ?st = Inr st'"
    by (simp add: recreateTexture_def Let_def)
  from recreateTexture_cell [OF r, of 0 0] cfg
  obtain tex' where "spectrogramTexture st' = Some tex'"
    "cell 600 (image_data tex') 0 0 = (0, 0, 0, 0)" by auto
  with r a show ?thesis by simp
qed

text \<open>
  Claim C10. When there is no texture or the history buffer is empty, \<open>updateTexture\<close>
  returns the state as it was: no byte of the image changes (nor anything else). A tick
  of \<open>updateSpectrogram\<close> while not recording changes nothing either.
\<close>

theorem updateTexture_idle:
  "(spectrogramTexture st = None \<or> spectrogramData st = [] \<longrightarrow> updateTexture st = st) \<and>
   (\<not> isRecording st \<longrightarrow> updateSpectrogram bins st = Inr st)"
  by (simp add: updateTexture_def updateSpectrogram_def split: option.splits)

theorem updateTexture_idle_witness:
  "updateTexture
     \<lparr>config = \<lparr>fftSize = 1024, melBands = 1, spectrogramWidth = 2\<rparr>, analyser = True,
      dataArray = [], isRecording = False, spectrogramData = [],
      spectrogramTexture = Some \<lparr>image_data = [7, 7, 7, 255, 9, 9, 9, 255], image_width = 2,
        image_height = 1, needsUpdate = False\<rparr>,
      melFilterBank = None\<rparr> =
     \<lparr>config = \<lparr>fftSize = 1024, melBands = 1, spectrogramWidth = 2\<rparr>, analyser = True,
      dataArray = [], isRecording = False, spectrogramData = [],
      spectrogramTexture = Some \<lparr>image_data = [7, 7, 7, 255, 9, 9, 9, 255], image_width = 2,
        image_height = 1, needsUpdate = False\<rparr>,
      melFilterBank = None\<rparr>"
  using updateTexture_idle
    [of "\<lparr>config = \<lparr>fftSize = 1024, melBands = 1, spectrogramWidth = 2\<rparr>, analyser = True,
      dataArray = [], isRecording = False, spectrogramData = [],
      spectrogramTexture = Some \<lparr>image_data = [7, 7, 7, 255, 9, 9, 9, 255], image_width = 2,
        image_height = 1, needsUpdate = False\<rparr>,
      melFilterBank = None\<rparr>"]
  by simp

subsection \<open>Colour function\<close>

lemma smoothstep_at_edge0: "smoothstep a b a = 0"
  by (simp add: smoothstep_def clamp_def)

lemma smoothstep_below:
  assumes "a < b" "x \<le> a"
  shows "smoothstep a b x = 0"
proof -
  have "(x - a) / (b - a) \<le> 0" using assms by (simp add: divide_le_0_iff)
  then show ?thesis by (simp add: smoothstep_def clamp_def Let_def)
qed

lemma smoothstep_above:
  assumes "a < b" "b \<le> x"
  shows "smoothstep a b x = 1"
proof -
  have "1 \<le> (x - a) / (b - a)" using assms by (simp add: le_divide_eq)
  then show ?thesis by (simp add: smoothstep_def clamp_def Let_def)
qed

lemma continuous_smoothstep [continuous_intros]:
  "a \<noteq> b \<Longrightarrow> isCont (smoothstep a b) x"
  unfolding smoothstep_def clamp_def Let_def
  by (intro continuous_intros) simp_all

lemma low_join:
  assumes "1 / 100 < x" "x < 3 / 5"
  shows "spectrogramColor time x =
    finish time x (vsub (vadd (mix dark mid (smoothstep 0 0.25 x))
      (mix mid bright (smoothstep 0.25 0.6 x))) mid)"
proof (cases "x < 1 / 4")
  case True
  then have "smoothstep 0.25 0.6 x = 0" by (intro smoothstep_below) simp_all
  with True assms show ?thesis
    by (simp add: spectrogramColor_def finish_def vadd_def vsub_def dark_def mid_def bright_def Let_def)
next
  case False
  then have "smoothstep 0 0.25 x = 1" by (intro smoothstep_above) simp_all
  with False assms show ?thesis
    by (simp add: spectrogramColor_def finish_def vadd_def vsub_def dark_def mid_def bright_def Let_def)
qed

lemma isCont_low_join:
  "isCont (\<lambda>x. finish time x (vsub (vadd (mix dark mid (smoothstep 0 0.25 x))
      (mix mid bright (smoothstep 0.25 0.6 x))) mid)) x"
  unfolding finish_def vadd_def vsub_def dark_def mid_def bright_def
  by (simp add: split_def) (intro continuous_intros; simp)

lemma high_join:
  assumes "1 / 4 < x"
  shows "spectrogramColor time x =
    finish time x (vsub (vadd (mix mid bright (smoothstep 0.25 0.6 x))
      (mix bright core (smoothstep 0.6 1 x))) bright)"
proof (cases "x < 3 / 5")
  case True
  then have "smoothstep 0.6 1 x = 0" by (intro smoothstep_below) simp_all
  with True assms show ?thesis
    by (simp add: spectrogramColor_def finish_def vadd_def vsub_def mid_def bright_def core_def Let_def)
next
  case False
  then have "smoothstep 0.25 0.6 x = 1" by (intro smoothstep_above) simp_all
  with False assms show ?thesis
    by (simp add: spectrogramColor_def finish_def vadd_def vsub_def mid_def bright_def core_def Let_def)
qed

lemma isCont_high_join:
  "isCont (\<lambda>x. finish time x (vsub (vadd (mix mid bright (smoothstep 0.25 0.6 x))
      (mix bright core (smoothstep 0.6 1 x))) bright)) x"
  unfolding finish_def vadd_def vsub_def mid_def bright_def core_def
  by (simp add: split_def) (intro continuous_intros; simp)

lemma isCont_spectrogramColor_low: "isCont (spectrogramColor time) (1 / 4)"
proof -
  have "eventually (\<lambda>x. spectrogramColor time x =
      finish time x (vsub (vadd (mix dark mid (smoothstep 0 0.25 x))
        (mix mid bright (smoothstep 0.25 0.6 x))) mid)) (nhds (1 / 4))"
    unfolding eventually_nhds
    by (intro exI [of _ "{1 / 100 <..< 3 / 5}"]) (simp add: low_join)
  then show ?thesis
    using isCont_low_join [where time = time and x = "1 / 4"] by (simp add: isCont_cong)
qed

lemma isCont_spectrogramColor_high: "isCont (spectrogramColor time) (3 / 5)"
proof -
  have "eventually (\<lambda>x. spectrogramColor time x =
      finish time x (vsub (vadd (mix mid bright (smoothstep 0.25 0.6 x))
        (mix bright core (smoothstep 0.6 1 x))) bright)) (nhds (3 / 5))"
    unfolding eventually_nhds
    by (intro exI [of _ "{1 / 4 <..}"]) (simp add: high_join)
  then show ?thesis
    using isCont_high_join [where time = time and x = "3 / 5"] by (simp add: isCont_cong)
qed

text \<open>
  Claim C9. \<open>spectrogramColor\<close> is pure black at intensity 0 and at every intensity
  below 0.01. At the thresholds 0.25 and 0.6 the two adjacent branches give the same
  colour (\<open>mid\<close> and \<open>bright\<close>: one smoothstep has reached 1 where the next starts at 0),
  and the whole function is continuous there, for every value of the uniform \<open>time\<close>.
\<close>

theorem spectrogramColor_black_continuous:
  "(\<forall>x. x < 0.01 \<longrightarrow> spectrogramColor time x = (0, 0, 0)) \<and>
   spectrogramColor time 0 = (0, 0, 0) \<and>
   mix dark mid (smoothstep 0 0.25 0.25) = mix mid bright (smoothstep 0.25 0.6 0.25) \<and>
   mix mid bright (smoothstep 0.25 0.6 0.6) = mix bright core (smoothstep 0.6 1 0.6) \<and>
   isCont (spectrogramColor time) 0.25 \<and> isCont (spectrogramColor time) 0.6"
proof -
  have a: "mix dark mid (smoothstep 0 0.25 0.25) = mix mid bright (smoothstep 0.25 0.6 0.25)"
    by (simp add: smoothstep_def clamp_def dark_def mid_def bright_def)
  have b: "mix mid bright (smoothstep 0.25 0.6 0.6) = mix bright core (smoothstep 0.6 1 0.6)"
    by (simp add: smoothstep_def clamp_def mid_def bright_def core_def)
  have c: "isCont (spectrogramColor time) 0.25"
    using isCont_spectrogramColor_low [of time] by simp
  have d: "isCont (spectrogramColor time) 0.6"
    using isCont_spectrogramColor_high [of time] by simp
  from a b c d show ?thesis by (simp add: spectrogramColor_def)
qed

theorem spectrogramColor_black_continuous_witness:
  "spectrogramColor 7 0.005 = (0, 0, 0) \<and> isCont (spectrogramColor 7) 0.25"
  using spectrogramColor_black_continuous [of 7] by simp

end
